theory Spec2Isabelle
  imports Main
begin

section \<open>The atom store, as the chaser sees it\<close>

text \<open>
  \<^verbatim>\<open>ForeachChaseLink.h\<close> reads the store only through \<^verbatim>\<open>TLB::getAtom\<close>,
  \<^verbatim>\<open>TLB::getHandle\<close>, \<^verbatim>\<open>Atom::getType\<close> and the two iterators of \<^verbatim>\<open>Foreach.h\<close>.
  A \<^verbatim>\<open>Handle\<close> is an opaque reference, an \<^verbatim>\<open>Atom *\<close> is the identity of an atom
  object (pointers are compared with \<^verbatim>\<open>!=\<close> in \<^verbatim>\<open>pursue_link\<close>); a null pointer is
  \<open>None\<close>.
\<close>

datatype Handle = Handle nat

datatype Atom = AtomAt nat

type_synonym Type = nat

text \<open>
  Modelled from the spec: the headers \<^verbatim>\<open>Atom.h\<close>, \<^verbatim>\<open>Link.h\<close> and \<^verbatim>\<open>TLB.h\<close> are not
  part of the sources. The store is the record of the capabilities of section 6 of the
  specification: \<open>getAtom\<close> is \<^verbatim>\<open>resolve(Handle)\<close> (\<open>None\<close> when the handle is absent),
  \<open>getHandle\<close> is \<^verbatim>\<open>identityOf(Atom)\<close>, \<open>getType\<close> is \<^verbatim>\<open>typeOf(Atom)\<close>,
  \<open>incoming h\<close> lists the links of the incoming set of the atom behind \<open>h\<close> in the order
  in which the store enumerates them, and \<open>outgoing h\<close> is the ordered member sequence
  (index 0, 1, 2, ...) of the link behind \<open>h\<close>.
\<close>

record atomspace =
  getAtom :: "Handle \<Rightarrow> Atom option"
  getHandle :: "Atom \<Rightarrow> Handle"
  getType :: "Atom \<Rightarrow> Type"
  incoming :: "Handle \<Rightarrow> Atom list"
  outgoing :: "Handle \<Rightarrow> Atom list"

section \<open>The chaser object and its surroundings\<close>

text \<open>
  The only failure the class can produce by itself: \<^verbatim>\<open>find_link_type\<close> calls through
  \<^verbatim>\<open>user_callback_lh\<close> whenever \<^verbatim>\<open>user_callback\<close> is null, also when both are null.
\<close>

datatype fault = NullCallback

text \<open>
  One visitor invocation (lines 144 to 147): the candidate link that produced it, the
  handle passed as first argument, the link handle passed as second argument by the
  link-aware form (\<open>None\<close> for the one-argument visitor), and the boolean the visitor
  returned.
\<close>

datatype call = Call (via: Atom) (target: Handle) (link_arg: "Handle option") (stop: bool)

text \<open>
  The private fields of \<^verbatim>\<open>PrivateUseOnlyChaseLink<T>\<close>, in the order of lines 118 to
  126. A visitor is a member function of \<^verbatim>\<open>T\<close>: it receives the receiver
  \<^verbatim>\<open>user_data\<close>, its handle arguments, and the state \<open>'w\<close> of everything outside the
  chaser that it may read and write, and returns its boolean with the new outside state.
  The \<^verbatim>\<open>int\<close> positions and the counter are integers: the counter runs from -1 to
  the last index of an outgoing set and never comes near the limits of \<^verbatim>\<open>int\<close>.
\<close>

record ('p, 'w) chaser =
  link_type :: Type
  from_atom :: "Atom option"
  to_atom :: "Atom option"
  position_from :: int
  position_to :: int
  cnt :: int
  user_callback :: "('p \<Rightarrow> Handle \<Rightarrow> 'w \<Rightarrow> bool \<times> 'w) option"
  user_callback_lh :: "('p \<Rightarrow> Handle \<Rightarrow> Handle \<Rightarrow> 'w \<Rightarrow> bool \<times> 'w) option"
  user_data :: 'p

text \<open>
  A run threads the chaser together with the outside state \<open>world\<close> and the history
  \<open>calls\<close> of the visitor invocations made so far. The history is not a field of the
  class: it records what lines 144 to 147 did, oldest invocation first.
\<close>

record ('p, 'w) run = "('p, 'w) chaser" +
  world :: 'w
  calls :: "call list"

section \<open>The iterators of Foreach.h\<close>

text \<open>
  Modelled from the spec: \<^verbatim>\<open>Foreach.h\<close> is not part of the sources. Section 6 of the
  specification gives \<^verbatim>\<open>forEachOutgoing(Link, perMemberCallback)\<close>: it enumerates the
  ordered members of a link by position, stops as soon as the callback signals stop, and
  returns whether it was stopped early.
\<close>

fun foreach_member :: "(Atom \<Rightarrow> 's \<Rightarrow> bool \<times> 's) \<Rightarrow> Atom list \<Rightarrow> 's \<Rightarrow> bool \<times> 's" where
  "foreach_member cb [] s = (False, s)"
| "foreach_member cb (a # as) s =
     (case cb a s of (rc, s') \<Rightarrow> if rc then (rc, s') else foreach_member cb as s')"

text \<open>
  Modelled from the spec: \<^verbatim>\<open>foreach_outgoing_atom\<close> of \<^verbatim>\<open>Foreach.h\<close>, which line
  139 calls with the handle of the candidate link: \<^verbatim>\<open>forEachOutgoing\<close> over the
  outgoing set of the link behind the handle.
\<close>

definition foreach_outgoing_atom ::
  "atomspace \<Rightarrow> Handle \<Rightarrow> (Atom \<Rightarrow> 's \<Rightarrow> bool \<times> 's) \<Rightarrow> 's \<Rightarrow> bool \<times> 's" where
  "foreach_outgoing_atom sp h cb s = foreach_member cb (outgoing sp h) s"

text \<open>
  Modelled from the spec: \<^verbatim>\<open>Foreach.h\<close> is not part of the sources. Section 6 of the
  specification gives \<^verbatim>\<open>forEachIncoming(Atom, perLinkCallback)\<close>: it enumerates the
  links that reference the atom, stops as soon as the callback signals stop, and returns
  whether it was stopped early. A fault of the callback ends the enumeration.
\<close>

fun foreach_link ::
  "(Atom \<Rightarrow> 's \<Rightarrow> fault + bool \<times> 's) \<Rightarrow> Atom list \<Rightarrow> 's \<Rightarrow> fault + bool \<times> 's" where
  "foreach_link cb [] s = Inr (False, s)"
| "foreach_link cb (l # ls) s =
     (case cb l s of
        Inl e \<Rightarrow> Inl e
      | Inr (rc, s') \<Rightarrow> if rc then Inr (rc, s') else foreach_link cb ls s')"

text \<open>
  Modelled from the spec: \<^verbatim>\<open>foreach_incoming_atom\<close> of \<^verbatim>\<open>Foreach.h\<close>, which lines
  88 and 113 call with the start handle: \<^verbatim>\<open>forEachIncoming\<close> over the incoming set of
  the atom behind the handle.
\<close>

definition foreach_incoming_atom ::
  "atomspace \<Rightarrow> Handle \<Rightarrow> (Atom \<Rightarrow> 's \<Rightarrow> fault + bool \<times> 's) \<Rightarrow> 's \<Rightarrow> fault + bool \<times> 's" where
  "foreach_incoming_atom sp h cb s = foreach_link cb (incoming sp h) s"

section \<open>PrivateUseOnlyChaseLink\<close>

text \<open>\<^verbatim>\<open>pursue_link\<close>, lines 152 to 174: one step of the positional walk.\<close>

definition pursue_link :: "Atom \<Rightarrow> ('p, 'w) run \<Rightarrow> bool \<times> ('p, 'w) run" where
  "pursue_link atom s =
     (let s1 = s\<lparr>cnt := cnt s + 1\<rparr> in
      if position_from s1 = cnt s1 then
        (if from_atom s1 \<noteq> Some atom then (True, s1\<lparr>to_atom := None\<rparr>)
         else (False, s1))
      else if position_to s1 = cnt s1 then (False, s1\<lparr>to_atom := Some atom\<rparr>)
      else (False, s1))"

text \<open>
  \<^verbatim>\<open>find_link_type\<close>, lines 131 to 150: the type test, the walk over the outgoing set
  of the candidate, and the visitor invocation when a target was captured.
\<close>

definition find_link_type ::
  "atomspace \<Rightarrow> Atom \<Rightarrow> ('p, 'w) run \<Rightarrow> fault + bool \<times> ('p, 'w) run" where
  "find_link_type sp link_atom s =
     (if link_type s \<noteq> getType sp link_atom then Inr (False, s)
      else
        let s1 = s\<lparr>cnt := - 1, to_atom := None\<rparr>;
            link_h = getHandle sp link_atom;
            s2 = snd (foreach_outgoing_atom sp link_h pursue_link s1)
        in case to_atom s2 of
             None \<Rightarrow> Inr (False, s2)
           | Some t \<Rightarrow>
               (case user_callback s2 of
                  Some cb \<Rightarrow>
                    (case cb (user_data s2) (getHandle sp t) (world s2) of
                       (rc, w) \<Rightarrow>
                         Inr (rc, s2\<lparr>world := w,
                                calls := calls s2 @ [Call link_atom (getHandle sp t) None rc]\<rparr>))
                | None \<Rightarrow>
                    (case user_callback_lh s2 of
                       Some cb \<Rightarrow>
                         (case cb (user_data s2) (getHandle sp t) link_h (world s2) of
                            (rc, w) \<Rightarrow>
                              Inr (rc, s2\<lparr>world := w,
                                     calls := calls s2 @
                                       [Call link_atom (getHandle sp t) (Some link_h) rc]\<rparr>))
                     | None \<Rightarrow> Inl NullCallback)))"

text \<open>
  \<^verbatim>\<open>follow_link\<close>, lines 72 to 90. \<^verbatim>\<open>return NULL\<close> in a function returning
  \<^verbatim>\<open>bool\<close> is \<^verbatim>\<open>false\<close>.
\<close>

definition follow_link ::
  "atomspace \<Rightarrow> Handle \<Rightarrow> Type \<Rightarrow> int \<Rightarrow> int \<Rightarrow> ('p \<Rightarrow> Handle \<Rightarrow> 'w \<Rightarrow> bool \<times> 'w) \<Rightarrow> 'p \<Rightarrow>
     ('p, 'w) run \<Rightarrow> fault + bool \<times> ('p, 'w) run" where
  "follow_link sp h ltype pfrom pto cb data s =
     (case getAtom sp h of
        None \<Rightarrow> Inr (False, s)
      | Some atom \<Rightarrow>
          foreach_incoming_atom sp h (find_link_type sp)
            (s\<lparr>link_type := ltype, from_atom := Some atom, to_atom := None,
               position_from := pfrom, position_to := pto,
               user_callback := Some cb, user_callback_lh := None, user_data := data\<rparr>))"

text \<open>\<^verbatim>\<open>follow_link_lh\<close>, lines 96 to 115.\<close>

definition follow_link_lh ::
  "atomspace \<Rightarrow> Handle \<Rightarrow> Type \<Rightarrow> int \<Rightarrow> int \<Rightarrow>
     ('p \<Rightarrow> Handle \<Rightarrow> Handle \<Rightarrow> 'w \<Rightarrow> bool \<times> 'w) \<Rightarrow> 'p \<Rightarrow>
     ('p, 'w) run \<Rightarrow> fault + bool \<times> ('p, 'w) run" where
  "follow_link_lh sp h ltype pfrom pto cb data s =
     (case getAtom sp h of
        None \<Rightarrow> Inr (False, s)
      | Some atom \<Rightarrow>
          foreach_incoming_atom sp h (find_link_type sp)
            (s\<lparr>link_type := ltype, from_atom := Some atom, to_atom := None,
               position_from := pfrom, position_to := pto,
               user_callback := None, user_callback_lh := Some cb, user_data := data\<rparr>))"

section \<open>The binary-link wrappers\<close>

text \<open>
  Lines 188 to 226. Each wrapper declares a local chaser \<^verbatim>\<open>cl\<close> whose fields are not
  initialised: the chaser part of the argument \<open>cl\<close> stands for whatever they hold. C++
  overloads the two visitor shapes under one name; the link-aware overloads carry the
  suffix \<open>_lh\<close> here.
\<close>

definition follow_binary_link ::
  "atomspace \<Rightarrow> Handle \<Rightarrow> Type \<Rightarrow> ('p \<Rightarrow> Handle \<Rightarrow> 'w \<Rightarrow> bool \<times> 'w) \<Rightarrow> 'p \<Rightarrow>
     ('p, 'w) run \<Rightarrow> fault + bool \<times> ('p, 'w) run" where
  "follow_binary_link sp h ltype cb data cl = follow_link sp h ltype 0 1 cb data cl"

definition follow_binary_link_lh ::
  "atomspace \<Rightarrow> Handle \<Rightarrow> Type \<Rightarrow> ('p \<Rightarrow> Handle \<Rightarrow> Handle \<Rightarrow> 'w \<Rightarrow> bool \<times> 'w) \<Rightarrow> 'p \<Rightarrow>
     ('p, 'w) run \<Rightarrow> fault + bool \<times> ('p, 'w) run" where
  "follow_binary_link_lh sp h ltype cb data cl = follow_link_lh sp h ltype 0 1 cb data cl"

definition backtrack_binary_link ::
  "atomspace \<Rightarrow> Handle \<Rightarrow> Type \<Rightarrow> ('p \<Rightarrow> Handle \<Rightarrow> 'w \<Rightarrow> bool \<times> 'w) \<Rightarrow> 'p \<Rightarrow>
     ('p, 'w) run \<Rightarrow> fault + bool \<times> ('p, 'w) run" where
  "backtrack_binary_link sp h ltype cb data cl = follow_link sp h ltype 1 0 cb data cl"

definition backtrack_binary_link_lh ::
  "atomspace \<Rightarrow> Handle \<Rightarrow> Type \<Rightarrow> ('p \<Rightarrow> Handle \<Rightarrow> Handle \<Rightarrow> 'w \<Rightarrow> bool \<times> 'w) \<Rightarrow> 'p \<Rightarrow>
     ('p, 'w) run \<Rightarrow> fault + bool \<times> ('p, 'w) run" where
  "backtrack_binary_link_lh sp h ltype cb data cl = follow_link_lh sp h ltype 1 0 cb data cl"

section \<open>Auxiliary definitions\<close>

text \<open>
  Lines 142 to 148 of \<^verbatim>\<open>find_link_type\<close> in isolation: the dispatch to the visitor once
  the walk over the outgoing set of \<open>link_atom\<close> has left the target \<open>t\<close> in
  \<^verbatim>\<open>to_atom\<close>.
\<close>

definition invoke ::
  "atomspace \<Rightarrow> Atom \<Rightarrow> Atom \<Rightarrow> ('p, 'w) run \<Rightarrow> fault + bool \<times> ('p, 'w) run" where
  "invoke sp link_atom t s2 =
     (case user_callback s2 of
        Some cb \<Rightarrow>
          (case cb (user_data s2) (getHandle sp t) (world s2) of
             (rc, w) \<Rightarrow>
               Inr (rc, s2\<lparr>world := w,
                      calls := calls s2 @ [Call link_atom (getHandle sp t) None rc]\<rparr>))
      | None \<Rightarrow>
          (case user_callback_lh s2 of
             Some cb \<Rightarrow>
               (case cb (user_data s2) (getHandle sp t) (getHandle sp link_atom) (world s2) of
                  (rc, w) \<Rightarrow>
                    Inr (rc, s2\<lparr>world := w,
                           calls := calls s2 @
                             [Call link_atom (getHandle sp t) (Some (getHandle sp link_atom)) rc]\<rparr>))
           | None \<Rightarrow> Inl NullCallback))"

text \<open>
  The concrete scenario of section 8 of the specification: the nodes \<open>a\<close>, \<open>b\<close>, \<open>c\<close>
  behind the handles 1, 2, 3, and the links \<open>L1 = InheritanceLink (a, b)\<close>,
  \<open>L2 = InheritanceLink (a, c)\<close>, \<open>L3 = SimilarityLink (a, b)\<close> behind the handles 11, 12,
  13. The atom object behind handle \<open>n\<close> is \<open>AtomAt n\<close>.
\<close>

definition NODE :: Type where
  "NODE = 1"

definition INHERITANCE_LINK :: Type where
  "INHERITANCE_LINK = 2"

definition SIMILARITY_LINK :: Type where
  "SIMILARITY_LINK = 3"

definition scenario :: atomspace where
  "scenario =
     \<lparr>getAtom = (\<lambda>h. case h of Handle n \<Rightarrow>
                   if n = 1 \<or> n = 2 \<or> n = 3 \<or> n = 11 \<or> n = 12 \<or> n = 13
                   then Some (AtomAt n) else None),
      getHandle = (\<lambda>a. case a of AtomAt n \<Rightarrow> Handle n),
      getType = (\<lambda>a. case a of AtomAt n \<Rightarrow>
                   if n = 11 \<or> n = 12 then INHERITANCE_LINK
                   else if n = 13 then SIMILARITY_LINK else NODE),
      incoming = (\<lambda>h. case h of Handle n \<Rightarrow>
                   if n = 1 then [AtomAt 11, AtomAt 12, AtomAt 13]
                   else if n = 2 then [AtomAt 11, AtomAt 13]
                   else if n = 3 then [AtomAt 12] else []),
      outgoing = (\<lambda>h. case h of Handle n \<Rightarrow>
                   if n = 11 then [AtomAt 1, AtomAt 2]
                   else if n = 12 then [AtomAt 1, AtomAt 3]
                   else if n = 13 then [AtomAt 1, AtomAt 2] else [])\<rparr>"

text \<open>
  Two visitors over an outside state that lists the handles reported so far: \<open>collect\<close>
  never asks to stop, \<open>first_only\<close> stops at its first invocation; and the link-aware
  visitors that ignore their second argument.
\<close>

definition collect :: "unit \<Rightarrow> Handle \<Rightarrow> Handle list \<Rightarrow> bool \<times> Handle list" where
  "collect p t w = (False, w @ [t])"

definition first_only :: "unit \<Rightarrow> Handle \<Rightarrow> Handle list \<Rightarrow> bool \<times> Handle list" where
  "first_only p t w = (True, w @ [t])"

definition collect_lh :: "unit \<Rightarrow> Handle \<Rightarrow> Handle \<Rightarrow> Handle list \<Rightarrow> bool \<times> Handle list" where
  "collect_lh p t l w = collect p t w"

definition first_only_lh :: "unit \<Rightarrow> Handle \<Rightarrow> Handle \<Rightarrow> Handle list \<Rightarrow> bool \<times> Handle list" where
  "first_only_lh p t l w = first_only p t w"

text \<open>A chaser whose fields hold nothing yet, with nothing reported and no history.\<close>

definition idle :: "(unit, Handle list) run" where
  "idle =
     \<lparr>link_type = 0, from_atom = None, to_atom = None, position_from = 0, position_to = 0,
      cnt = 0, user_callback = None, user_callback_lh = None, user_data = (),
      world = [], calls = []\<rparr>"

text \<open>
  A chaser as an earlier call may have left it: every field holds a value unrelated to the
  next call, the outside state lists an earlier report and the history an earlier
  invocation.
\<close>

definition busy :: "(unit, Handle list) run" where
  "busy =
     \<lparr>link_type = SIMILARITY_LINK, from_atom = Some (AtomAt 3), to_atom = Some (AtomAt 2),
      position_from = 7, position_to = 0, cnt = 5, user_callback = Some first_only,
      user_callback_lh = Some first_only_lh, user_data = (),
      world = [Handle 2], calls = [Call (AtomAt 13) (Handle 2) None True]\<rparr>"

text \<open>
  Visitors that stop when they are shown \<open>c\<close>: the answer depends on the target only, the
  outside state records the handles, or the link handles, seen.
\<close>

definition stop_at_c :: "unit \<Rightarrow> Handle \<Rightarrow> Handle list \<Rightarrow> bool \<times> Handle list" where
  "stop_at_c p t w = (t = Handle 3, w @ [t])"

definition stop_at_c_lh :: "unit \<Rightarrow> Handle \<Rightarrow> Handle \<Rightarrow> Handle list \<Rightarrow> bool \<times> Handle list" where
  "stop_at_c_lh p t l w = (t = Handle 3, w @ [l])"

text \<open>
  Visitors that stop at their second invocation: the answer depends on the outside state,
  which lists the handles, or the link handles, seen so far.
\<close>

definition stop_at_second :: "unit \<Rightarrow> Handle \<Rightarrow> Handle list \<Rightarrow> bool \<times> Handle list" where
  "stop_at_second p t w = (1 \<le> length w, w @ [t])"

definition stop_at_second_lh :: "unit \<Rightarrow> Handle \<Rightarrow> Handle \<Rightarrow> Handle list \<Rightarrow> bool \<times> Handle list" where
  "stop_at_second_lh p t l w = (1 \<le> length w, w @ [l])"

text \<open>
  The invocation the link-aware form makes where the plain form makes \<open>e\<close>: the same
  candidate, target and answer, with the handle of the candidate as second argument.
\<close>

definition with_link :: "atomspace \<Rightarrow> call \<Rightarrow> call" where
  "with_link sp e = Call (via e) (target e) (Some (getHandle sp (via e))) (stop e)"

text \<open>
  What a caller can observe of a finished chase: the returned boolean, the outside state
  and the history of visitor invocations; \<open>None\<close> after a fault.
\<close>

definition observed :: "fault + bool \<times> ('p, 'w) run \<Rightarrow> (bool \<times> 'w \<times> call list) option" where
  "observed r = (case r of Inl e \<Rightarrow> None | Inr (rc, s) \<Rightarrow> Some (rc, world s, calls s))"

text \<open>
  A store with one node \<open>a\<close> behind handle 1 and one link \<open>ListLink (a)\<close> of arity one
  behind handle 21.
\<close>

definition LIST_LINK :: Type where
  "LIST_LINK = 4"

definition singleton_store :: atomspace where
  "singleton_store =
     \<lparr>getAtom = (\<lambda>h. case h of Handle n \<Rightarrow>
                   if n = 1 \<or> n = 21 then Some (AtomAt n) else None),
      getHandle = (\<lambda>a. case a of AtomAt n \<Rightarrow> Handle n),
      getType = (\<lambda>a. case a of AtomAt n \<Rightarrow> if n = 21 then LIST_LINK else NODE),
      incoming = (\<lambda>h. case h of Handle n \<Rightarrow> if n = 1 then [AtomAt 21] else []),
      outgoing = (\<lambda>h. case h of Handle n \<Rightarrow> if n = 21 then [AtomAt 1] else [])\<rparr>"

section \<open>The positional walk\<close>

lemma pursue_link_step:
  "pursue_link a s =
     (if position_from s = cnt s + 1 then
        (if from_atom s \<noteq> Some a then (True, s\<lparr>cnt := cnt s + 1, to_atom := None\<rparr>)
         else (False, s\<lparr>cnt := cnt s + 1\<rparr>))
      else if position_to s = cnt s + 1 then (False, s\<lparr>cnt := cnt s + 1, to_atom := Some a\<rparr>)
      else (False, s\<lparr>cnt := cnt s + 1\<rparr>))"
  by (simp add: pursue_link_def Let_def)

lemma nat_pred_shift: "nat (p - k - 1) - Suc 0 = nat (p - k - 2)"
  by linarith

text \<open>
  The state after walking the members \<open>ys\<close> from a state whose counter is \<open>cnt s\<close>: the
  walk stops at the source position when the member there is not the start atom, and
  otherwise runs to the end, recording the member at the target position unless the
  target position is the source position.
\<close>

lemma walk_closed:
  "snd (foreach_member pursue_link ys s) =
     (if cnt s < position_from s \<and> position_from s \<le> cnt s + int (length ys)
         \<and> from_atom s \<noteq> Some (ys ! nat (position_from s - cnt s - 1))
      then s\<lparr>cnt := position_from s, to_atom := None\<rparr>
      else s\<lparr>cnt := cnt s + int (length ys),
             to_atom := (if cnt s < position_to s \<and> position_to s \<le> cnt s + int (length ys)
                            \<and> position_to s \<noteq> position_from s
                         then Some (ys ! nat (position_to s - cnt s - 1)) else to_atom s)\<rparr>)"
proof (induction ys arbitrary: s)
  case Nil
  then show ?case by auto
next
  case (Cons a ys)
  consider (stop) "position_from s = cnt s + 1" "from_atom s \<noteq> Some a"
    | (pass) "position_from s = cnt s + 1" "from_atom s = Some a"
    | (capture) "position_from s \<noteq> cnt s + 1" "position_to s = cnt s + 1"
    | (other) "position_from s \<noteq> cnt s + 1" "position_to s \<noteq> cnt s + 1"
    by blast
  then show ?case
  proof cases
    case stop
    then have "pursue_link a s = (True, s\<lparr>cnt := cnt s + 1, to_atom := None\<rparr>)"
      by (simp add: pursue_link_step)
    with stop show ?thesis by simp
  next
    case pass
    then have "pursue_link a s = (False, s\<lparr>cnt := cnt s + 1\<rparr>)"
      by (simp add: pursue_link_step)
    with pass show ?thesis
      by (auto simp add: Cons.IH nat_pred_shift add.assoc)
  next
    case capture
    then have "pursue_link a s = (False, s\<lparr>cnt := cnt s + 1, to_atom := Some a\<rparr>)"
      by (simp add: pursue_link_step)
    with capture show ?thesis
      by (auto simp add: Cons.IH nat_pred_shift add.assoc)
  next
    case other
    then have "pursue_link a s = (False, s\<lparr>cnt := cnt s + 1\<rparr>)"
      by (simp add: pursue_link_step)
    with other show ?thesis
      by (auto simp add: Cons.IH nat_pred_shift add.assoc)
  qed
qed

lemma walk_result:
  "snd (foreach_outgoing_atom sp lh pursue_link (s\<lparr>cnt := - 1, to_atom := None\<rparr>)) =
     (if 0 \<le> position_from s \<and> position_from s < int (length (outgoing sp lh))
         \<and> from_atom s \<noteq> Some (outgoing sp lh ! nat (position_from s))
      then s\<lparr>cnt := position_from s, to_atom := None\<rparr>
      else s\<lparr>cnt := int (length (outgoing sp lh)) - 1,
             to_atom := (if 0 \<le> position_to s \<and> position_to s < int (length (outgoing sp lh))
                            \<and> position_to s \<noteq> position_from s
                         then Some (outgoing sp lh ! nat (position_to s)) else None)\<rparr>)"
  by (simp add: foreach_outgoing_atom_def walk_closed)

section \<open>One candidate link\<close>

text \<open>
  What \<^verbatim>\<open>find_link_type\<close> does with one candidate, with the walk replaced by its
  result: a link of another type is skipped; a link whose member at the source position
  is not the start atom yields nothing; otherwise the visitor is invoked exactly when the
  target position is an index of the outgoing set other than the source position.
\<close>

lemma find_link_type_closed:
  "find_link_type sp l s =
     (if link_type s \<noteq> getType sp l then Inr (False, s)
      else if 0 \<le> position_from s
              \<and> position_from s < int (length (outgoing sp (getHandle sp l)))
              \<and> from_atom s \<noteq> Some (outgoing sp (getHandle sp l) ! nat (position_from s))
      then Inr (False, s\<lparr>cnt := position_from s, to_atom := None\<rparr>)
      else if 0 \<le> position_to s
              \<and> position_to s < int (length (outgoing sp (getHandle sp l)))
              \<and> position_to s \<noteq> position_from s
      then invoke sp l (outgoing sp (getHandle sp l) ! nat (position_to s))
             (s\<lparr>cnt := int (length (outgoing sp (getHandle sp l))) - 1,
                to_atom := Some (outgoing sp (getHandle sp l) ! nat (position_to s))\<rparr>)
      else Inr (False, s\<lparr>cnt := int (length (outgoing sp (getHandle sp l))) - 1,
                         to_atom := None\<rparr>))"
  unfolding find_link_type_def Let_def walk_result invoke_def
  by auto

lemma invoke_cases:
  assumes "invoke sp l t s = Inr (rc, s')"
  shows "\<exists>w. s' = s\<lparr>world := w,
            calls := calls s @ [Call l (getHandle sp t)
              (case user_callback s of Some cb \<Rightarrow> None | None \<Rightarrow> Some (getHandle sp l)) rc]\<rparr>"
  using assms
  by (auto simp: invoke_def split: option.splits prod.splits)

lemma find_link_type_step:
  assumes "find_link_type sp l s = Inr (rc, s')"
  shows "s' = s\<lparr>cnt := cnt s', to_atom := to_atom s', world := world s', calls := calls s'\<rparr> \<and>
           (calls s' = calls s \<and> \<not> rc \<and> world s' = world s \<or>
            calls s' = calls s @
                [Call l (getHandle sp (outgoing sp (getHandle sp l) ! nat (position_to s)))
                     (case user_callback s of Some cb \<Rightarrow> None | None \<Rightarrow> Some (getHandle sp l)) rc]
              \<and> getType sp l = link_type s
              \<and> 0 \<le> position_to s
              \<and> nat (position_to s) < length (outgoing sp (getHandle sp l)))"
proof -
  let ?out = "outgoing sp (getHandle sp l)"
  consider (skip) "link_type s \<noteq> getType sp l"
    | (mismatch) "link_type s = getType sp l" "0 \<le> position_from s"
        "position_from s < int (length ?out)" "from_atom s \<noteq> Some (?out ! nat (position_from s))"
    | (hit) "link_type s = getType sp l"
        "\<not> (0 \<le> position_from s \<and> position_from s < int (length ?out)
            \<and> from_atom s \<noteq> Some (?out ! nat (position_from s)))"
        "0 \<le> position_to s" "position_to s < int (length ?out)" "position_to s \<noteq> position_from s"
    | (miss) "link_type s = getType sp l"
        "\<not> (0 \<le> position_from s \<and> position_from s < int (length ?out)
            \<and> from_atom s \<noteq> Some (?out ! nat (position_from s)))"
        "\<not> (0 \<le> position_to s \<and> position_to s < int (length ?out) \<and> position_to s \<noteq> position_from s)"
    by blast
  then show ?thesis
  proof cases
    case skip
    with assms have "rc = False" "s' = s" by (simp_all add: find_link_type_closed)
    then show ?thesis by simp
  next
    case mismatch
    with assms have "rc = False" "s' = s\<lparr>cnt := position_from s, to_atom := None\<rparr>"
      by (simp_all add: find_link_type_closed)
    then show ?thesis by simp
  next
    case miss
    with assms have "rc = False" "s' = s\<lparr>cnt := int (length ?out) - 1, to_atom := None\<rparr>"
      by (simp_all add: find_link_type_closed)
    then show ?thesis by simp
  next
    case hit
    with assms have "invoke sp l (?out ! nat (position_to s))
             (s\<lparr>cnt := int (length ?out) - 1, to_atom := Some (?out ! nat (position_to s))\<rparr>) = Inr (rc, s')"
      by (simp add: find_link_type_closed)
    from invoke_cases [OF this] obtain w where eq:
      "s' = s\<lparr>cnt := int (length ?out) - 1, to_atom := Some (?out ! nat (position_to s)), world := w,
            calls := calls s @ [Call l (getHandle sp (?out ! nat (position_to s)))
              (case user_callback s of Some cb \<Rightarrow> None | None \<Rightarrow> Some (getHandle sp l)) rc]\<rparr>"
      by auto
    from hit have "nat (position_to s) < length ?out" by linarith
    with hit show ?thesis unfolding eq by simp
  qed
qed

section \<open>The enumeration of the incoming set\<close>

lemma foreach_link_Cons_cases:
  assumes "foreach_link cb (l # ls) s = Inr (rc, s')"
  obtains (halt) "cb l s = Inr (True, s')" "rc"
    | (continue) s1 where "cb l s = Inr (False, s1)" "foreach_link cb ls s1 = Inr (rc, s')"
  using assms by (auto split: sum.splits if_splits)

lemma find_link_type_params:
  assumes "find_link_type sp l s = Inr (rc, s')"
  shows "link_type s' = link_type s" "from_atom s' = from_atom s"
    "position_from s' = position_from s" "position_to s' = position_to s"
    "user_callback s' = user_callback s" "user_callback_lh s' = user_callback_lh s"
    "user_data s' = user_data s"
proof -
  from find_link_type_step [OF assms]
  have eq: "s' = s\<lparr>cnt := cnt s', to_atom := to_atom s', world := world s', calls := calls s'\<rparr>"
    by blast
  show "link_type s' = link_type s" by (subst eq) simp
  show "from_atom s' = from_atom s" by (subst eq) simp
  show "position_from s' = position_from s" by (subst eq) simp
  show "position_to s' = position_to s" by (subst eq) simp
  show "user_callback s' = user_callback s" by (subst eq) simp
  show "user_callback_lh s' = user_callback_lh s" by (subst eq) simp
  show "user_data s' = user_data s" by (subst eq) simp
qed

lemma chase_params:
  assumes "foreach_link (find_link_type sp) ls s = Inr (rc, s')"
  shows "link_type s' = link_type s \<and> from_atom s' = from_atom s \<and>
    position_from s' = position_from s \<and> position_to s' = position_to s \<and>
    user_callback s' = user_callback s \<and> user_callback_lh s' = user_callback_lh s \<and>
    user_data s' = user_data s"
  using assms
proof (induction ls arbitrary: s)
  case Nil
  then show ?case by simp
next
  case (Cons l ls)
  from Cons.prems show ?case
  proof (cases rule: foreach_link_Cons_cases)
    case halt
    then show ?thesis by (simp add: find_link_type_params)
  next
    case (continue s1)
    from Cons.IH [OF continue(2)] find_link_type_params [OF continue(1)]
    show ?thesis by simp
  qed
qed

lemma chase_events:
  assumes "foreach_link (find_link_type sp) ls s = Inr (rc, s')"
  shows "\<exists>new. calls s' = calls s @ new \<and>
           (\<forall>e\<in>set new. via e \<in> set ls \<and> getType sp (via e) = link_type s \<and>
              0 \<le> position_to s \<and>
              nat (position_to s) < length (outgoing sp (getHandle sp (via e))) \<and>
              target e = getHandle sp (outgoing sp (getHandle sp (via e)) ! nat (position_to s)) \<and>
              link_arg e = (case user_callback s of Some cb \<Rightarrow> None
                            | None \<Rightarrow> Some (getHandle sp (via e)))) \<and>
           (\<forall>e\<in>set (butlast new). \<not> stop e) \<and>
           (rc \<longleftrightarrow> new \<noteq> [] \<and> stop (last new)) \<and>
           (new = [] \<longrightarrow> world s' = world s)"
  using assms
proof (induction ls arbitrary: s)
  case Nil
  then show ?case by simp
next
  case (Cons l ls)
  let ?e = "\<lambda>rc. Call l (getHandle sp (outgoing sp (getHandle sp l) ! nat (position_to s)))
                     (case user_callback s of Some cb \<Rightarrow> None | None \<Rightarrow> Some (getHandle sp l)) rc"
  from Cons.prems show ?case
  proof (cases rule: foreach_link_Cons_cases)
    case halt
    from find_link_type_step [OF halt(1)]
    have "calls s' = calls s @ [?e True] \<and> getType sp l = link_type s
              \<and> 0 \<le> position_to s
              \<and> nat (position_to s) < length (outgoing sp (getHandle sp l))"
      by blast
    with halt(2) show ?thesis by (auto split: option.splits)
  next
    case (continue s1)
    from Cons.IH [OF continue(2)] obtain new where new:
      "calls s' = calls s1 @ new"
      "\<forall>e\<in>set new. via e \<in> set ls \<and> getType sp (via e) = link_type s1 \<and>
              0 \<le> position_to s1 \<and>
              nat (position_to s1) < length (outgoing sp (getHandle sp (via e))) \<and>
              target e = getHandle sp (outgoing sp (getHandle sp (via e)) ! nat (position_to s1)) \<and>
              link_arg e = (case user_callback s1 of Some cb \<Rightarrow> None
                            | None \<Rightarrow> Some (getHandle sp (via e)))"
      "\<forall>e\<in>set (butlast new). \<not> stop e"
      "rc \<longleftrightarrow> new \<noteq> [] \<and> stop (last new)"
      "new = [] \<longrightarrow> world s' = world s1"
      by blast
    note par = find_link_type_params [OF continue(1)]
    from find_link_type_step [OF continue(1)]
    consider (quiet) "calls s1 = calls s" "world s1 = world s"
      | (called) "calls s1 = calls s @ [?e False]" "getType sp l = link_type s"
          "0 \<le> position_to s" "nat (position_to s) < length (outgoing sp (getHandle sp l))"
      by blast
    then show ?thesis
    proof cases
      case quiet
      with new par show ?thesis by auto
    next
      case called
      have "calls s' = calls s @ (?e False # new)" using new(1) called(1) by simp
      moreover have "\<forall>e\<in>set (?e False # new). via e \<in> set (l # ls) \<and> getType sp (via e) = link_type s \<and>
              0 \<le> position_to s \<and>
              nat (position_to s) < length (outgoing sp (getHandle sp (via e))) \<and>
              target e = getHandle sp (outgoing sp (getHandle sp (via e)) ! nat (position_to s)) \<and>
              link_arg e = (case user_callback s of Some cb \<Rightarrow> None
                            | None \<Rightarrow> Some (getHandle sp (via e)))"
        using new(2) called par by (auto split: option.splits)
      moreover have "\<forall>e\<in>set (butlast (?e False # new)). \<not> stop e" using new(3) by simp
      moreover have "rc \<longleftrightarrow> ?e False # new \<noteq> [] \<and> stop (last (?e False # new))"
        using new(4) by simp
      ultimately show ?thesis by blast
    qed
  qed
qed

lemma invoke_total:
  assumes "user_callback s \<noteq> None \<or> user_callback_lh s \<noteq> None"
  shows "\<exists>rc s'. invoke sp l t s = Inr (rc, s')"
  using assms by (auto simp: invoke_def split: option.splits prod.splits)

lemma find_link_type_total:
  assumes "user_callback s \<noteq> None \<or> user_callback_lh s \<noteq> None"
  shows "\<exists>rc s'. find_link_type sp l s = Inr (rc, s')"
  using assms invoke_total [of "s\<lparr>cnt := int (length (outgoing sp (getHandle sp l))) - 1,
                to_atom := Some (outgoing sp (getHandle sp l) ! nat (position_to s))\<rparr>" sp l
                "outgoing sp (getHandle sp l) ! nat (position_to s)"]
  by (auto simp add: find_link_type_closed)

lemma chase_total:
  assumes "user_callback s \<noteq> None \<or> user_callback_lh s \<noteq> None"
  shows "\<exists>rc s'. foreach_link (find_link_type sp) ls s = Inr (rc, s')"
  using assms
proof (induction ls arbitrary: s)
  case Nil
  then show ?case by auto
next
  case (Cons l ls)
  from find_link_type_total [OF Cons.prems] obtain rc1 s1
    where step: "find_link_type sp l s = Inr (rc1, s1)" by blast
  from find_link_type_params [OF step] Cons.prems
  have "user_callback s1 \<noteq> None \<or> user_callback_lh s1 \<noteq> None" by simp
  from Cons.IH [OF this] step show ?case by auto
qed

lemma foreach_link_halted_prefix:
  assumes "foreach_link cb pre s = Inr (True, s')"
  shows "foreach_link cb (pre @ post) s = Inr (True, s')"
  using assms
proof (induction pre arbitrary: s)
  case Nil
  then show ?case by simp
next
  case (Cons l pre)
  then show ?case by (auto split: sum.splits if_splits)
qed

lemma foreach_link_passed_prefix:
  assumes "foreach_link cb pre s = Inr (False, s1)"
  shows "foreach_link cb (pre @ post) s = foreach_link cb post s1"
  using assms
proof (induction pre arbitrary: s)
  case Nil
  then show ?case by simp
next
  case (Cons l pre)
  then show ?case by (auto split: sum.splits if_splits)
qed

lemma find_link_type_incoming_irrelevant:
  "find_link_type (sp\<lparr>incoming := f\<rparr>) = find_link_type sp"
  by (intro ext) (auto simp add: find_link_type_closed invoke_def split: option.splits prod.splits)

lemma chase_filter:
  "foreach_link (find_link_type sp) (filter (\<lambda>l. getType sp l = link_type s) ls) s =
   foreach_link (find_link_type sp) ls s"
proof (induction ls arbitrary: s)
  case Nil
  then show ?case by simp
next
  case (Cons l ls)
  show ?case
  proof (cases "getType sp l = link_type s")
    case False
    then have "find_link_type sp l s = Inr (False, s)" by (simp add: find_link_type_closed)
    with False show ?thesis by (simp add: Cons.IH)
  next
    case True
    show ?thesis
    proof (cases "find_link_type sp l s")
      case (Inl e)
      with True show ?thesis by simp
    next
      case (Inr r)
      obtain rc1 s1 where r: "r = (rc1, s1)" by (cases r)
      from find_link_type_params(1) [OF Inr [unfolded r]] have "link_type s1 = link_type s" .
      with True Inr r Cons.IH [of s1] show ?thesis by simp
    qed
  qed
qed

section \<open>Evaluating the scenario\<close>

text \<open>
  Two ways to run a chase on a given store: \<open>scenario_run\<close> goes through the description
  of \<^verbatim>\<open>find_link_type\<close> proved above, \<open>source_run\<close> unfolds the functions as they are
  written.
\<close>

lemmas scenario_run = follow_link_def follow_link_lh_def foreach_incoming_atom_def
  find_link_type_closed invoke_def scenario_def idle_def collect_def first_only_def
  collect_lh_def first_only_lh_def NODE_def INHERITANCE_LINK_def SIMILARITY_LINK_def

lemmas source_run = follow_link_def follow_link_lh_def foreach_incoming_atom_def
  find_link_type_def foreach_outgoing_atom_def pursue_link_def Let_def
  scenario_def idle_def collect_def first_only_def
  collect_lh_def first_only_lh_def NODE_def INHERITANCE_LINK_def SIMILARITY_LINK_def

section \<open>Properties of a chase\<close>

text \<open>
  C4. When the start handle does not resolve to an atom, or the incoming set of the start
  atom is empty, both forms of the chase return false without a fault (the result is
  \<open>Inr\<close>), the visitor is never invoked and the outside state is untouched.
\<close>

theorem C4_unresolved_or_empty:
  assumes "getAtom sp h = None \<or> incoming sp h = []"
  shows "(\<exists>s'. follow_link sp h ltype pfrom pto cb data s = Inr (False, s') \<and>
            calls s' = calls s \<and> world s' = world s) \<and>
         (\<exists>s'. follow_link_lh sp h ltype pfrom pto cb_lh data s = Inr (False, s') \<and>
            calls s' = calls s \<and> world s' = world s)"
proof (cases "getAtom sp h")
  case None
  then show ?thesis by (simp add: follow_link_def follow_link_lh_def)
next
  case (Some atom)
  with assms have "incoming sp h = []" by simp
  with Some show ?thesis
    by (simp add: follow_link_def follow_link_lh_def foreach_incoming_atom_def)
qed

theorem C4_unresolved_or_empty_witness:
  "(getAtom scenario (Handle 99) = None \<or> incoming scenario (Handle 99) = []) \<and>
   (getAtom scenario (Handle 11) = None \<or> incoming scenario (Handle 11) = []) \<and>
   (\<exists>s'. follow_link scenario (Handle 99) INHERITANCE_LINK 0 1 first_only () idle = Inr (False, s') \<and>
          calls s' = calls idle \<and> world s' = world idle) \<and>
   (\<exists>s'. follow_link_lh scenario (Handle 11) INHERITANCE_LINK 0 1 first_only_lh () idle = Inr (False, s') \<and>
          calls s' = calls idle \<and> world s' = world idle)"
proof -
  have a: "getAtom scenario (Handle 99) = None \<or> incoming scenario (Handle 99) = []"
    by (simp add: scenario_def)
  have b: "getAtom scenario (Handle 11) = None \<or> incoming scenario (Handle 11) = []"
    by (simp add: scenario_def)
  from a b C4_unresolved_or_empty [OF a, of INHERITANCE_LINK 0 1 first_only "()" idle]
    C4_unresolved_or_empty [OF b, of INHERITANCE_LINK 0 1 _ "()" idle first_only_lh]
  show ?thesis by blast
qed

lemma follow_link_unfold:
  "follow_link sp h ltype pfrom pto cb data s =
     (case getAtom sp h of
        None \<Rightarrow> Inr (False, s)
      | Some atom \<Rightarrow>
          foreach_link (find_link_type sp) (incoming sp h)
            (s\<lparr>link_type := ltype, from_atom := Some atom, to_atom := None,
               position_from := pfrom, position_to := pto,
               user_callback := Some cb, user_callback_lh := None, user_data := data\<rparr>))"
  by (simp add: follow_link_def foreach_incoming_atom_def split: option.splits)

lemma follow_link_lh_unfold:
  "follow_link_lh sp h ltype pfrom pto cb data s =
     (case getAtom sp h of
        None \<Rightarrow> Inr (False, s)
      | Some atom \<Rightarrow>
          foreach_link (find_link_type sp) (incoming sp h)
            (s\<lparr>link_type := ltype, from_atom := Some atom, to_atom := None,
               position_from := pfrom, position_to := pto,
               user_callback := None, user_callback_lh := Some cb, user_data := data\<rparr>))"
  by (simp add: follow_link_lh_def foreach_incoming_atom_def split: option.splits)

lemma follow_link_events:
  assumes "follow_link sp h ltype pfrom pto cb data s = Inr (rc, s')"
  shows "\<exists>new. calls s' = calls s @ new \<and>
           (\<forall>e\<in>set new. via e \<in> set (incoming sp h) \<and> getType sp (via e) = ltype \<and>
              0 \<le> pto \<and> nat pto < length (outgoing sp (getHandle sp (via e))) \<and>
              target e = getHandle sp (outgoing sp (getHandle sp (via e)) ! nat pto) \<and>
              link_arg e = None) \<and>
           (\<forall>e\<in>set (butlast new). \<not> stop e) \<and>
           (rc \<longleftrightarrow> new \<noteq> [] \<and> stop (last new)) \<and>
           (new = [] \<longrightarrow> world s' = world s)"
proof (cases "getAtom sp h")
  case None
  with assms show ?thesis by (simp add: follow_link_unfold)
next
  case (Some atom)
  with assms have "foreach_link (find_link_type sp) (incoming sp h)
            (s\<lparr>link_type := ltype, from_atom := Some atom, to_atom := None,
               position_from := pfrom, position_to := pto,
               user_callback := Some cb, user_callback_lh := None, user_data := data\<rparr>) = Inr (rc, s')"
    by (simp add: follow_link_unfold)
  from chase_events [OF this] show ?thesis by simp
qed

lemma follow_link_lh_events:
  assumes "follow_link_lh sp h ltype pfrom pto cb data s = Inr (rc, s')"
  shows "\<exists>new. calls s' = calls s @ new \<and>
           (\<forall>e\<in>set new. via e \<in> set (incoming sp h) \<and> getType sp (via e) = ltype \<and>
              0 \<le> pto \<and> nat pto < length (outgoing sp (getHandle sp (via e))) \<and>
              target e = getHandle sp (outgoing sp (getHandle sp (via e)) ! nat pto) \<and>
              link_arg e = Some (getHandle sp (via e))) \<and>
           (\<forall>e\<in>set (butlast new). \<not> stop e) \<and>
           (rc \<longleftrightarrow> new \<noteq> [] \<and> stop (last new)) \<and>
           (new = [] \<longrightarrow> world s' = world s)"
proof (cases "getAtom sp h")
  case None
  with assms show ?thesis by (simp add: follow_link_lh_unfold)
next
  case (Some atom)
  with assms have "foreach_link (find_link_type sp) (incoming sp h)
            (s\<lparr>link_type := ltype, from_atom := Some atom, to_atom := None,
               position_from := pfrom, position_to := pto,
               user_callback := None, user_callback_lh := Some cb, user_data := data\<rparr>) = Inr (rc, s')"
    by (simp add: follow_link_lh_unfold)
  from chase_events [OF this] show ?thesis by simp
qed

lemma follow_link_filter:
  "follow_link sp h ltype pfrom pto cb data s =
   follow_link (sp\<lparr>incoming := \<lambda>x. filter (\<lambda>l. getType sp l = ltype) (incoming sp x)\<rparr>)
     h ltype pfrom pto cb data s"
  using chase_filter [of sp "s\<lparr>link_type := ltype, from_atom := Some atom, to_atom := None,
               position_from := pfrom, position_to := pto,
               user_callback := Some cb, user_callback_lh := None, user_data := data\<rparr>"
               "incoming sp h" for atom]
  by (simp add: follow_link_unfold find_link_type_incoming_irrelevant split: option.splits)

lemma follow_link_lh_filter:
  "follow_link_lh sp h ltype pfrom pto cb data s =
   follow_link_lh (sp\<lparr>incoming := \<lambda>x. filter (\<lambda>l. getType sp l = ltype) (incoming sp x)\<rparr>)
     h ltype pfrom pto cb data s"
  using chase_filter [of sp "s\<lparr>link_type := ltype, from_atom := Some atom, to_atom := None,
               position_from := pfrom, position_to := pto,
               user_callback := None, user_callback_lh := Some cb, user_data := data\<rparr>"
               "incoming sp h" for atom]
  by (simp add: follow_link_lh_unfold find_link_type_incoming_irrelevant split: option.splits)

lemma find_link_type_equal_positions:
  assumes "position_from s = position_to s"
  shows "\<exists>s'. find_link_type sp l s = Inr (False, s') \<and>
           calls s' = calls s \<and> world s' = world s \<and> position_from s' = position_to s' \<and>
           to_atom s' = (if link_type s = getType sp l then None else to_atom s)"
  using assms by (simp add: find_link_type_closed)

lemma chase_equal_positions_target:
  assumes "position_from s = position_to s" "to_atom s = None"
  shows "\<exists>s'. foreach_link (find_link_type sp) ls s = Inr (False, s') \<and>
           calls s' = calls s \<and> world s' = world s \<and> to_atom s' = None"
  using assms
proof (induction ls arbitrary: s)
  case Nil
  then show ?case by simp
next
  case (Cons l ls)
  from find_link_type_equal_positions [OF Cons.prems(1), of sp l] Cons.prems(2)
  obtain s1 where step: "find_link_type sp l s = Inr (False, s1)"
    and same: "calls s1 = calls s" "world s1 = world s" "position_from s1 = position_to s1"
      "to_atom s1 = None"
    by (auto split: if_splits)
  from Cons.IH [OF same(3,4)] step same(1,2) show ?case by auto
qed

text \<open>
  C9. Degenerate equal positions: whenever the source position equals the target position,
  \<^verbatim>\<open>follow_link\<close> and \<^verbatim>\<open>follow_link_lh\<close> return false, the visitor is never invoked
  (the history of invocations is unchanged), the outside state is untouched and
  \<^verbatim>\<open>to_atom\<close> is null at the end, for every store, start handle, link type and visitor.
  For each candidate, \<^verbatim>\<open>find_link_type\<close> returns false without an invocation, and
  leaves \<^verbatim>\<open>to_atom\<close> null when the candidate has the requested type: no target is
  captured.
\<close>

theorem C9_equal_positions:
  "(\<exists>s'. follow_link sp h ltype p p cb data s = Inr (False, s') \<and>
          calls s' = calls s \<and> world s' = world s \<and>
          (getAtom sp h \<noteq> None \<longrightarrow> to_atom s' = None)) \<and>
   (\<exists>s'. follow_link_lh sp h ltype p p cb_lh data s = Inr (False, s') \<and>
          calls s' = calls s \<and> world s' = world s \<and>
          (getAtom sp h \<noteq> None \<longrightarrow> to_atom s' = None)) \<and>
   (position_from c = position_to c \<longrightarrow>
      (\<exists>c'. find_link_type sp l c = Inr (False, c') \<and> calls c' = calls c \<and>
          world c' = world c \<and> (link_type c = getType sp l \<longrightarrow> to_atom c' = None)))"
proof (intro conjI impI)
  let ?s1 = "s\<lparr>link_type := ltype, from_atom := Some atom, to_atom := None,
               position_from := p, position_to := p,
               user_callback := Some cb, user_callback_lh := None, user_data := data\<rparr>"
  show "\<exists>s'. follow_link sp h ltype p p cb data s = Inr (False, s') \<and>
          calls s' = calls s \<and> world s' = world s \<and>
          (getAtom sp h \<noteq> None \<longrightarrow> to_atom s' = None)"
  proof (cases "getAtom sp h")
    case None
    then show ?thesis by (simp add: follow_link_unfold)
  next
    case (Some atom)
    let ?s = "s\<lparr>link_type := ltype, from_atom := Some atom, to_atom := None,
               position_from := p, position_to := p,
               user_callback := Some cb, user_callback_lh := None, user_data := data\<rparr>"
    have "position_from ?s = position_to ?s" "to_atom ?s = None" by simp_all
    from chase_equal_positions_target [OF this, of sp "incoming sp h"] Some
    show ?thesis by (simp add: follow_link_unfold)
  qed
next
  show "\<exists>s'. follow_link_lh sp h ltype p p cb_lh data s = Inr (False, s') \<and>
          calls s' = calls s \<and> world s' = world s \<and>
          (getAtom sp h \<noteq> None \<longrightarrow> to_atom s' = None)"
  proof (cases "getAtom sp h")
    case None
    then show ?thesis by (simp add: follow_link_lh_unfold)
  next
    case (Some atom)
    let ?s = "s\<lparr>link_type := ltype, from_atom := Some atom, to_atom := None,
               position_from := p, position_to := p,
               user_callback := None, user_callback_lh := Some cb_lh, user_data := data\<rparr>"
    have "position_from ?s = position_to ?s" "to_atom ?s = None" by simp_all
    from chase_equal_positions_target [OF this, of sp "incoming sp h"] Some
    show ?thesis by (simp add: follow_link_lh_unfold)
  qed
next
  assume "position_from c = position_to c"
  from find_link_type_equal_positions [OF this, of sp l]
  show "\<exists>c'. find_link_type sp l c = Inr (False, c') \<and> calls c' = calls c \<and>
          world c' = world c \<and> (link_type c = getType sp l \<longrightarrow> to_atom c' = None)"
    by auto
qed

theorem C9_equal_positions_witness:
  "(\<exists>s'. follow_link scenario (Handle 1) INHERITANCE_LINK 1 1 first_only () idle = Inr (False, s') \<and>
          calls s' = [] \<and> world s' = [] \<and> to_atom s' = None) \<and>
   (\<exists>s'. follow_link_lh scenario (Handle 1) INHERITANCE_LINK 0 0 first_only_lh () idle = Inr (False, s') \<and>
          calls s' = [] \<and> world s' = [] \<and> to_atom s' = None) \<and>
   position_from (busy\<lparr>position_from := 0\<rparr>) = position_to (busy\<lparr>position_from := 0\<rparr>) \<and>
   (\<exists>c'. find_link_type scenario (AtomAt 13) (busy\<lparr>position_from := 0\<rparr>) = Inr (False, c') \<and>
      calls c' = calls busy \<and> world c' = world busy \<and> to_atom c' = None)"
proof -
  have a: "getAtom scenario (Handle 1) \<noteq> None" by (simp add: scenario_def)
  have eq: "position_from (busy\<lparr>position_from := 0\<rparr>) = position_to (busy\<lparr>position_from := 0\<rparr>)"
    by (simp add: busy_def)
  have ty: "link_type (busy\<lparr>position_from := 0\<rparr>) = getType scenario (AtomAt 13)"
    by (simp add: busy_def scenario_def)
  from C9_equal_positions [where sp = scenario and h = "Handle 1" and ltype = INHERITANCE_LINK
      and p = 1 and cb = first_only and data = "()" and s = idle, THEN conjunct1] a
  have r1: "\<exists>s'. follow_link scenario (Handle 1) INHERITANCE_LINK 1 1 first_only () idle = Inr (False, s') \<and>
          calls s' = [] \<and> world s' = [] \<and> to_atom s' = None"
    by (simp add: idle_def)
  from C9_equal_positions [where sp = scenario and h = "Handle 1" and ltype = INHERITANCE_LINK
      and p = 0 and cb_lh = first_only_lh and data = "()" and s = idle,
      THEN conjunct2, THEN conjunct1] a
  have r2: "\<exists>s'. follow_link_lh scenario (Handle 1) INHERITANCE_LINK 0 0 first_only_lh () idle = Inr (False, s') \<and>
          calls s' = [] \<and> world s' = [] \<and> to_atom s' = None"
    by (simp add: idle_def)
  from C9_equal_positions [where sp = scenario and l = "AtomAt 13"
      and c = "busy\<lparr>position_from := 0\<rparr>", THEN conjunct2, THEN conjunct2, THEN mp, OF eq] ty
  have r3: "\<exists>c'. find_link_type scenario (AtomAt 13) (busy\<lparr>position_from := 0\<rparr>) = Inr (False, c') \<and>
      calls c' = calls busy \<and> world c' = world busy \<and> to_atom c' = None"
    by simp
  from r1 r2 eq r3 show ?thesis by (intro conjI)
qed

text \<open>
  C8. Every visitor invocation of a chase is produced by a candidate link of the incoming
  set whose type equals the requested link type; the target position is an index of the
  outgoing set of that link, and the handle passed to the visitor is the handle of the
  member at that index; the link-aware form passes the handle of the same link as second
  argument, the plain form passes no link. Nothing is assumed about the source position:
  the statement covers the walks that never reach the identity check.
\<close>

theorem C8_invocation_invariant:
  "(follow_link sp h ltype pfrom pto cb data s = Inr (rc, s') \<longrightarrow>
      (\<exists>new. calls s' = calls s @ new \<and>
         (\<forall>e\<in>set new. via e \<in> set (incoming sp h) \<and> getType sp (via e) = ltype \<and>
            0 \<le> pto \<and> nat pto < length (outgoing sp (getHandle sp (via e))) \<and>
            target e = getHandle sp (outgoing sp (getHandle sp (via e)) ! nat pto) \<and>
            link_arg e = None))) \<and>
   (follow_link_lh sp h ltype pfrom pto cb_lh data s = Inr (rc_lh, s_lh) \<longrightarrow>
      (\<exists>new. calls s_lh = calls s @ new \<and>
         (\<forall>e\<in>set new. via e \<in> set (incoming sp h) \<and> getType sp (via e) = ltype \<and>
            0 \<le> pto \<and> nat pto < length (outgoing sp (getHandle sp (via e))) \<and>
            target e = getHandle sp (outgoing sp (getHandle sp (via e)) ! nat pto) \<and>
            link_arg e = Some (getHandle sp (via e)))))"
proof (intro conjI impI)
  assume "follow_link sp h ltype pfrom pto cb data s = Inr (rc, s')"
  from follow_link_events [OF this]
  show "\<exists>new. calls s' = calls s @ new \<and>
         (\<forall>e\<in>set new. via e \<in> set (incoming sp h) \<and> getType sp (via e) = ltype \<and>
            0 \<le> pto \<and> nat pto < length (outgoing sp (getHandle sp (via e))) \<and>
            target e = getHandle sp (outgoing sp (getHandle sp (via e)) ! nat pto) \<and>
            link_arg e = None)"
    by blast
next
  assume "follow_link_lh sp h ltype pfrom pto cb_lh data s = Inr (rc_lh, s_lh)"
  from follow_link_lh_events [OF this]
  show "\<exists>new. calls s_lh = calls s @ new \<and>
         (\<forall>e\<in>set new. via e \<in> set (incoming sp h) \<and> getType sp (via e) = ltype \<and>
            0 \<le> pto \<and> nat pto < length (outgoing sp (getHandle sp (via e))) \<and>
            target e = getHandle sp (outgoing sp (getHandle sp (via e)) ! nat pto) \<and>
            link_arg e = Some (getHandle sp (via e)))"
    by blast
qed

theorem C8_invocation_invariant_witness:
  "(\<exists>s'. follow_link scenario (Handle 1) INHERITANCE_LINK 2 1 collect () idle = Inr (False, s') \<and>
      calls s' = [Call (AtomAt 11) (Handle 2) None False, Call (AtomAt 12) (Handle 3) None False] \<and>
      (\<exists>new. calls s' = calls idle @ new \<and>
         (\<forall>e\<in>set new. via e \<in> set (incoming scenario (Handle 1)) \<and>
            getType scenario (via e) = INHERITANCE_LINK \<and>
            0 \<le> (1::int) \<and> nat 1 < length (outgoing scenario (getHandle scenario (via e))) \<and>
            target e = getHandle scenario (outgoing scenario (getHandle scenario (via e)) ! nat 1) \<and>
            link_arg e = None))) \<and>
   (\<exists>s'. follow_link_lh scenario (Handle 2) INHERITANCE_LINK 1 0 first_only_lh () idle = Inr (True, s') \<and>
      calls s' = [Call (AtomAt 11) (Handle 1) (Some (Handle 11)) True] \<and>
      (\<exists>new. calls s' = calls idle @ new \<and>
         (\<forall>e\<in>set new. via e \<in> set (incoming scenario (Handle 2)) \<and>
            getType scenario (via e) = INHERITANCE_LINK \<and>
            0 \<le> (0::int) \<and> nat 0 < length (outgoing scenario (getHandle scenario (via e))) \<and>
            target e = getHandle scenario (outgoing scenario (getHandle scenario (via e)) ! nat 0) \<and>
            link_arg e = Some (getHandle scenario (via e)))))"
proof -
  obtain s1 where run1:
    "follow_link scenario (Handle 1) INHERITANCE_LINK 2 1 collect () idle = Inr (False, s1)"
    and calls1: "calls s1 = [Call (AtomAt 11) (Handle 2) None False, Call (AtomAt 12) (Handle 3) None False]"
    by (simp add: scenario_run)
  obtain s2 where run2:
    "follow_link_lh scenario (Handle 2) INHERITANCE_LINK 1 0 first_only_lh () idle = Inr (True, s2)"
    and calls2: "calls s2 = [Call (AtomAt 11) (Handle 1) (Some (Handle 11)) True]"
    by (simp add: scenario_run)
  from C8_invocation_invariant [where sp = scenario and h = "Handle 1" and ltype = INHERITANCE_LINK
      and pfrom = 2 and pto = 1 and cb = collect and data = "()" and s = idle and rc = False
      and s' = s1 and cb_lh = first_only_lh and rc_lh = True and s_lh = s2] run1 calls1
  have a: "\<exists>s'. follow_link scenario (Handle 1) INHERITANCE_LINK 2 1 collect () idle = Inr (False, s') \<and>
      calls s' = [Call (AtomAt 11) (Handle 2) None False, Call (AtomAt 12) (Handle 3) None False] \<and>
      (\<exists>new. calls s' = calls idle @ new \<and>
         (\<forall>e\<in>set new. via e \<in> set (incoming scenario (Handle 1)) \<and>
            getType scenario (via e) = INHERITANCE_LINK \<and>
            0 \<le> (1::int) \<and> nat 1 < length (outgoing scenario (getHandle scenario (via e))) \<and>
            target e = getHandle scenario (outgoing scenario (getHandle scenario (via e)) ! nat 1) \<and>
            link_arg e = None))"
    by blast
  from C8_invocation_invariant [where sp = scenario and h = "Handle 2" and ltype = INHERITANCE_LINK
      and pfrom = 1 and pto = 0 and cb = collect and data = "()" and s = idle and rc = False
      and s' = s1 and cb_lh = first_only_lh and rc_lh = True and s_lh = s2] run2 calls2
  have b: "\<exists>s'. follow_link_lh scenario (Handle 2) INHERITANCE_LINK 1 0 first_only_lh () idle = Inr (True, s') \<and>
      calls s' = [Call (AtomAt 11) (Handle 1) (Some (Handle 11)) True] \<and>
      (\<exists>new. calls s' = calls idle @ new \<and>
         (\<forall>e\<in>set new. via e \<in> set (incoming scenario (Handle 2)) \<and>
            getType scenario (via e) = INHERITANCE_LINK \<and>
            0 \<le> (0::int) \<and> nat 0 < length (outgoing scenario (getHandle scenario (via e))) \<and>
            target e = getHandle scenario (outgoing scenario (getHandle scenario (via e)) ! nat 0) \<and>
            link_arg e = Some (getHandle scenario (via e))))"
    by blast
  from a b show ?thesis by blast
qed

text \<open>
  C5. Type filtering is exact. A candidate whose type differs from the requested type is
  skipped by \<^verbatim>\<open>find_link_type\<close>: it returns false and leaves the whole state, the
  history of invocations included, as it was. A chase therefore runs exactly as on the
  store whose incoming sets keep only the links of the requested type, and every
  invocation it makes comes from a link of the requested type.
\<close>

theorem C5_exact_type:
  "(link_type s \<noteq> getType sp l \<longrightarrow> find_link_type sp l s = Inr (False, s)) \<and>
   follow_link sp h ltype pfrom pto cb data s =
     follow_link (sp\<lparr>incoming := \<lambda>x. filter (\<lambda>l. getType sp l = ltype) (incoming sp x)\<rparr>)
       h ltype pfrom pto cb data s \<and>
   follow_link_lh sp h ltype pfrom pto cb_lh data s =
     follow_link_lh (sp\<lparr>incoming := \<lambda>x. filter (\<lambda>l. getType sp l = ltype) (incoming sp x)\<rparr>)
       h ltype pfrom pto cb_lh data s \<and>
   (follow_link sp h ltype pfrom pto cb data s = Inr (rc, s') \<longrightarrow>
      (\<exists>new. calls s' = calls s @ new \<and> (\<forall>e\<in>set new. getType sp (via e) = ltype))) \<and>
   (follow_link_lh sp h ltype pfrom pto cb_lh data s = Inr (rc_lh, s_lh) \<longrightarrow>
      (\<exists>new. calls s_lh = calls s @ new \<and> (\<forall>e\<in>set new. getType sp (via e) = ltype)))"
proof (intro conjI impI)
  assume "link_type s \<noteq> getType sp l"
  then show "find_link_type sp l s = Inr (False, s)" by (simp add: find_link_type_closed)
next
  show "follow_link sp h ltype pfrom pto cb data s =
     follow_link (sp\<lparr>incoming := \<lambda>x. filter (\<lambda>l. getType sp l = ltype) (incoming sp x)\<rparr>)
       h ltype pfrom pto cb data s"
    by (rule follow_link_filter)
next
  show "follow_link_lh sp h ltype pfrom pto cb_lh data s =
     follow_link_lh (sp\<lparr>incoming := \<lambda>x. filter (\<lambda>l. getType sp l = ltype) (incoming sp x)\<rparr>)
       h ltype pfrom pto cb_lh data s"
    by (rule follow_link_lh_filter)
next
  assume "follow_link sp h ltype pfrom pto cb data s = Inr (rc, s')"
  from follow_link_events [OF this]
  show "\<exists>new. calls s' = calls s @ new \<and> (\<forall>e\<in>set new. getType sp (via e) = ltype)"
    by blast
next
  assume "follow_link_lh sp h ltype pfrom pto cb_lh data s = Inr (rc_lh, s_lh)"
  from follow_link_lh_events [OF this]
  show "\<exists>new. calls s_lh = calls s @ new \<and> (\<forall>e\<in>set new. getType sp (via e) = ltype)"
    by blast
qed

theorem C5_exact_type_witness:
  "link_type (idle\<lparr>link_type := INHERITANCE_LINK\<rparr>) \<noteq> getType scenario (AtomAt 13) \<and>
   find_link_type scenario (AtomAt 13) (idle\<lparr>link_type := INHERITANCE_LINK\<rparr>) =
     Inr (False, idle\<lparr>link_type := INHERITANCE_LINK\<rparr>) \<and>
   (\<exists>s'. follow_link scenario (Handle 1) INHERITANCE_LINK 0 1 collect () idle = Inr (False, s') \<and>
      calls s' = [Call (AtomAt 11) (Handle 2) None False, Call (AtomAt 12) (Handle 3) None False] \<and>
      (\<exists>new. calls s' = calls idle @ new \<and>
         (\<forall>e\<in>set new. getType scenario (via e) = INHERITANCE_LINK))) \<and>
   (\<exists>s'. follow_link_lh scenario (Handle 1) SIMILARITY_LINK 0 1 collect_lh () idle = Inr (False, s') \<and>
      calls s' = [Call (AtomAt 13) (Handle 2) (Some (Handle 13)) False] \<and>
      (\<exists>new. calls s' = calls idle @ new \<and>
         (\<forall>e\<in>set new. getType scenario (via e) = SIMILARITY_LINK)))"
proof -
  have ne: "link_type (idle\<lparr>link_type := INHERITANCE_LINK\<rparr>) \<noteq> getType scenario (AtomAt 13)"
    by (simp add: scenario_def INHERITANCE_LINK_def SIMILARITY_LINK_def)
  obtain s1 where run1:
    "follow_link scenario (Handle 1) INHERITANCE_LINK 0 1 collect () idle = Inr (False, s1)"
    and calls1: "calls s1 = [Call (AtomAt 11) (Handle 2) None False, Call (AtomAt 12) (Handle 3) None False]"
    by (simp add: scenario_run)
  obtain s2 where run2:
    "follow_link_lh scenario (Handle 1) SIMILARITY_LINK 0 1 collect_lh () idle = Inr (False, s2)"
    and calls2: "calls s2 = [Call (AtomAt 13) (Handle 2) (Some (Handle 13)) False]"
    by (simp add: scenario_run)
  have skip: "find_link_type scenario (AtomAt 13) (idle\<lparr>link_type := INHERITANCE_LINK\<rparr>) =
     Inr (False, idle\<lparr>link_type := INHERITANCE_LINK\<rparr>)"
    using C5_exact_type [THEN conjunct1] ne by (rule mp)
  have only1: "\<exists>new. calls s1 = calls idle @ new \<and>
         (\<forall>e\<in>set new. getType scenario (via e) = INHERITANCE_LINK)"
    using C5_exact_type [THEN conjunct2, THEN conjunct2, THEN conjunct2, THEN conjunct1] run1
    by (rule mp)
  have only2: "\<exists>new. calls s2 = calls idle @ new \<and>
         (\<forall>e\<in>set new. getType scenario (via e) = SIMILARITY_LINK)"
    using C5_exact_type [THEN conjunct2, THEN conjunct2, THEN conjunct2, THEN conjunct2] run2
    by (rule mp)
  from run1 calls1 only1 have a:
    "\<exists>s'. follow_link scenario (Handle 1) INHERITANCE_LINK 0 1 collect () idle = Inr (False, s') \<and>
      calls s' = [Call (AtomAt 11) (Handle 2) None False, Call (AtomAt 12) (Handle 3) None False] \<and>
      (\<exists>new. calls s' = calls idle @ new \<and>
         (\<forall>e\<in>set new. getType scenario (via e) = INHERITANCE_LINK))"
    by (intro exI [of _ s1] conjI)
  from run2 calls2 only2 have b:
    "\<exists>s'. follow_link_lh scenario (Handle 1) SIMILARITY_LINK 0 1 collect_lh () idle = Inr (False, s') \<and>
      calls s' = [Call (AtomAt 13) (Handle 2) (Some (Handle 13)) False] \<and>
      (\<exists>new. calls s' = calls idle @ new \<and>
         (\<forall>e\<in>set new. getType scenario (via e) = SIMILARITY_LINK))"
    by (intro exI [of _ s2] conjI)
  from ne skip a b show ?thesis by (intro conjI)
qed

text \<open>
  C3. Early exit. In the invocations of one chase only the last can have returned true,
  and the chase returns true exactly when it did; so a chase whose invocations all
  returned false returns false. When the chase over the candidates \<open>pre\<close> returns true,
  the chase over \<open>pre @ post\<close> ends in the same state with the same history: no candidate
  of \<open>post\<close> is examined.
\<close>

theorem C3_early_exit:
  "(follow_link sp h ltype pfrom pto cb data s = Inr (rc, s') \<longrightarrow>
      (\<exists>new. calls s' = calls s @ new \<and> (\<forall>e\<in>set (butlast new). \<not> stop e) \<and>
         (rc \<longleftrightarrow> new \<noteq> [] \<and> stop (last new)))) \<and>
   (follow_link_lh sp h ltype pfrom pto cb_lh data s = Inr (rc_lh, s_lh) \<longrightarrow>
      (\<exists>new. calls s_lh = calls s @ new \<and> (\<forall>e\<in>set (butlast new). \<not> stop e) \<and>
         (rc_lh \<longleftrightarrow> new \<noteq> [] \<and> stop (last new)))) \<and>
   (incoming sp h = pre @ post \<and>
    follow_link (sp\<lparr>incoming := (incoming sp)(h := pre)\<rparr>) h ltype pfrom pto cb data s = Inr (True, s_pre)
      \<longrightarrow> follow_link sp h ltype pfrom pto cb data s = Inr (True, s_pre)) \<and>
   (incoming sp h = pre @ post \<and>
    follow_link_lh (sp\<lparr>incoming := (incoming sp)(h := pre)\<rparr>) h ltype pfrom pto cb_lh data s = Inr (True, s_pre_lh)
      \<longrightarrow> follow_link_lh sp h ltype pfrom pto cb_lh data s = Inr (True, s_pre_lh))"
proof (intro conjI impI)
  assume "follow_link sp h ltype pfrom pto cb data s = Inr (rc, s')"
  from follow_link_events [OF this]
  show "\<exists>new. calls s' = calls s @ new \<and> (\<forall>e\<in>set (butlast new). \<not> stop e) \<and>
         (rc \<longleftrightarrow> new \<noteq> [] \<and> stop (last new))"
    by blast
next
  assume "follow_link_lh sp h ltype pfrom pto cb_lh data s = Inr (rc_lh, s_lh)"
  from follow_link_lh_events [OF this]
  show "\<exists>new. calls s_lh = calls s @ new \<and> (\<forall>e\<in>set (butlast new). \<not> stop e) \<and>
         (rc_lh \<longleftrightarrow> new \<noteq> [] \<and> stop (last new))"
    by blast
next
  assume a: "incoming sp h = pre @ post \<and>
    follow_link (sp\<lparr>incoming := (incoming sp)(h := pre)\<rparr>) h ltype pfrom pto cb data s = Inr (True, s_pre)"
  show "follow_link sp h ltype pfrom pto cb data s = Inr (True, s_pre)"
  proof (cases "getAtom sp h")
    case None
    with a show ?thesis by (simp add: follow_link_unfold)
  next
    case (Some atom)
    with a have "foreach_link (find_link_type sp) pre
            (s\<lparr>link_type := ltype, from_atom := Some atom, to_atom := None,
               position_from := pfrom, position_to := pto,
               user_callback := Some cb, user_callback_lh := None, user_data := data\<rparr>) = Inr (True, s_pre)"
      by (simp add: follow_link_unfold find_link_type_incoming_irrelevant)
    from foreach_link_halted_prefix [OF this, of post] a Some show ?thesis
      by (simp add: follow_link_unfold)
  qed
next
  assume a: "incoming sp h = pre @ post \<and>
    follow_link_lh (sp\<lparr>incoming := (incoming sp)(h := pre)\<rparr>) h ltype pfrom pto cb_lh data s = Inr (True, s_pre_lh)"
  show "follow_link_lh sp h ltype pfrom pto cb_lh data s = Inr (True, s_pre_lh)"
  proof (cases "getAtom sp h")
    case None
    with a show ?thesis by (simp add: follow_link_lh_unfold)
  next
    case (Some atom)
    with a have "foreach_link (find_link_type sp) pre
            (s\<lparr>link_type := ltype, from_atom := Some atom, to_atom := None,
               position_from := pfrom, position_to := pto,
               user_callback := None, user_callback_lh := Some cb_lh, user_data := data\<rparr>) = Inr (True, s_pre_lh)"
      by (simp add: follow_link_lh_unfold find_link_type_incoming_irrelevant)
    from foreach_link_halted_prefix [OF this, of post] a Some show ?thesis
      by (simp add: follow_link_lh_unfold)
  qed
qed

theorem C3_early_exit_witness:
  "(\<exists>s'. follow_link scenario (Handle 1) INHERITANCE_LINK 0 1 first_only () idle = Inr (True, s') \<and>
      calls s' = [Call (AtomAt 11) (Handle 2) None True] \<and>
      (\<exists>new. calls s' = calls idle @ new \<and> (\<forall>e\<in>set (butlast new). \<not> stop e) \<and>
         (True \<longleftrightarrow> new \<noteq> [] \<and> stop (last new)))) \<and>
   (\<exists>s'. follow_link_lh scenario (Handle 1) INHERITANCE_LINK 0 1 collect_lh () idle = Inr (False, s') \<and>
      calls s' = [Call (AtomAt 11) (Handle 2) (Some (Handle 11)) False,
                  Call (AtomAt 12) (Handle 3) (Some (Handle 12)) False] \<and>
      (\<exists>new. calls s' = calls idle @ new \<and> (\<forall>e\<in>set (butlast new). \<not> stop e) \<and>
         (False \<longleftrightarrow> new \<noteq> [] \<and> stop (last new)))) \<and>
   incoming scenario (Handle 1) = [AtomAt 11] @ [AtomAt 12, AtomAt 13] \<and>
   (\<exists>s1. follow_link (scenario\<lparr>incoming := (incoming scenario)(Handle 1 := [AtomAt 11])\<rparr>)
            (Handle 1) INHERITANCE_LINK 0 1 first_only () idle = Inr (True, s1) \<and>
         follow_link scenario (Handle 1) INHERITANCE_LINK 0 1 first_only () idle = Inr (True, s1)) \<and>
   (\<exists>s2. follow_link_lh (scenario\<lparr>incoming := (incoming scenario)(Handle 1 := [AtomAt 11])\<rparr>)
            (Handle 1) INHERITANCE_LINK 0 1 first_only_lh () idle = Inr (True, s2) \<and>
         follow_link_lh scenario (Handle 1) INHERITANCE_LINK 0 1 first_only_lh () idle = Inr (True, s2))"
proof -
  obtain s1 where run1:
    "follow_link scenario (Handle 1) INHERITANCE_LINK 0 1 first_only () idle = Inr (True, s1)"
    and calls1: "calls s1 = [Call (AtomAt 11) (Handle 2) None True]"
    by (simp add: scenario_run)
  obtain s2 where run2:
    "follow_link_lh scenario (Handle 1) INHERITANCE_LINK 0 1 collect_lh () idle = Inr (False, s2)"
    and calls2: "calls s2 = [Call (AtomAt 11) (Handle 2) (Some (Handle 11)) False,
                  Call (AtomAt 12) (Handle 3) (Some (Handle 12)) False]"
    by (simp add: scenario_run)
  have split: "incoming scenario (Handle 1) = [AtomAt 11] @ [AtomAt 12, AtomAt 13]"
    by (simp add: scenario_def)
  obtain s3 where run3:
    "follow_link (scenario\<lparr>incoming := (incoming scenario)(Handle 1 := [AtomAt 11])\<rparr>)
            (Handle 1) INHERITANCE_LINK 0 1 first_only () idle = Inr (True, s3)"
    by (simp add: scenario_run)
  obtain s4 where run4:
    "follow_link_lh (scenario\<lparr>incoming := (incoming scenario)(Handle 1 := [AtomAt 11])\<rparr>)
            (Handle 1) INHERITANCE_LINK 0 1 first_only_lh () idle = Inr (True, s4)"
    by (simp add: scenario_run)
  have last1: "\<exists>new. calls s1 = calls idle @ new \<and> (\<forall>e\<in>set (butlast new). \<not> stop e) \<and>
         (True \<longleftrightarrow> new \<noteq> [] \<and> stop (last new))"
    using C3_early_exit [THEN conjunct1] run1 by (rule mp)
  have last2: "\<exists>new. calls s2 = calls idle @ new \<and> (\<forall>e\<in>set (butlast new). \<not> stop e) \<and>
         (False \<longleftrightarrow> new \<noteq> [] \<and> stop (last new))"
    using C3_early_exit [THEN conjunct2, THEN conjunct1] run2 by (rule mp)
  have full3: "follow_link scenario (Handle 1) INHERITANCE_LINK 0 1 first_only () idle = Inr (True, s3)"
    using C3_early_exit [THEN conjunct2, THEN conjunct2, THEN conjunct1] conjI [OF split run3]
    by (rule mp)
  have full4: "follow_link_lh scenario (Handle 1) INHERITANCE_LINK 0 1 first_only_lh () idle = Inr (True, s4)"
    using C3_early_exit [THEN conjunct2, THEN conjunct2, THEN conjunct2] conjI [OF split run4]
    by (rule mp)
  from run1 calls1 last1 have a:
    "\<exists>s'. follow_link scenario (Handle 1) INHERITANCE_LINK 0 1 first_only () idle = Inr (True, s') \<and>
      calls s' = [Call (AtomAt 11) (Handle 2) None True] \<and>
      (\<exists>new. calls s' = calls idle @ new \<and> (\<forall>e\<in>set (butlast new). \<not> stop e) \<and>
         (True \<longleftrightarrow> new \<noteq> [] \<and> stop (last new)))"
    by (intro exI [of _ s1] conjI)
  from run2 calls2 last2 have b:
    "\<exists>s'. follow_link_lh scenario (Handle 1) INHERITANCE_LINK 0 1 collect_lh () idle = Inr (False, s') \<and>
      calls s' = [Call (AtomAt 11) (Handle 2) (Some (Handle 11)) False,
                  Call (AtomAt 12) (Handle 3) (Some (Handle 12)) False] \<and>
      (\<exists>new. calls s' = calls idle @ new \<and> (\<forall>e\<in>set (butlast new). \<not> stop e) \<and>
         (False \<longleftrightarrow> new \<noteq> [] \<and> stop (last new)))"
    by (intro exI [of _ s2] conjI)
  from run3 full3 have c:
    "\<exists>s1. follow_link (scenario\<lparr>incoming := (incoming scenario)(Handle 1 := [AtomAt 11])\<rparr>)
            (Handle 1) INHERITANCE_LINK 0 1 first_only () idle = Inr (True, s1) \<and>
         follow_link scenario (Handle 1) INHERITANCE_LINK 0 1 first_only () idle = Inr (True, s1)"
    by (intro exI [of _ s3] conjI)
  from run4 full4 have d:
    "\<exists>s2. follow_link_lh (scenario\<lparr>incoming := (incoming scenario)(Handle 1 := [AtomAt 11])\<rparr>)
            (Handle 1) INHERITANCE_LINK 0 1 first_only_lh () idle = Inr (True, s2) \<and>
         follow_link_lh scenario (Handle 1) INHERITANCE_LINK 0 1 first_only_lh () idle = Inr (True, s2)"
    by (intro exI [of _ s4] conjI)
  from a b split c d show ?thesis by (intro conjI)
qed

section \<open>Independence from the fields left by earlier calls\<close>

lemma find_link_type_cnt:
  assumes "link_type s = getType sp l"
  shows "find_link_type sp l (s\<lparr>cnt := k\<rparr>) = find_link_type sp l s"
  using assms by (simp add: find_link_type_closed)

lemma chase_cnt:
  "map_sum id (\<lambda>(rc, r). (rc, world r, calls r))
     (foreach_link (find_link_type sp) ls (s\<lparr>cnt := k\<rparr>)) =
   map_sum id (\<lambda>(rc, r). (rc, world r, calls r))
     (foreach_link (find_link_type sp) ls s)"
proof (induction ls arbitrary: s)
  case Nil
  then show ?case by simp
next
  case (Cons l ls)
  show ?case
  proof (cases "link_type s = getType sp l")
    case True
    then show ?thesis by (simp add: find_link_type_cnt)
  next
    case False
    then have "find_link_type sp l (s\<lparr>cnt := k\<rparr>) = Inr (False, s\<lparr>cnt := k\<rparr>)"
      "find_link_type sp l s = Inr (False, s)"
      by (simp_all add: find_link_type_closed)
    with Cons.IH [of s] show ?thesis by simp
  qed
qed

lemma entry_cnt:
  fixes s1 s2 :: "('p, 'w) run"
  assumes "world s1 = world s2" "calls s1 = calls s2"
  shows "s2\<lparr>link_type := ltype, from_atom := fa, to_atom := None,
               position_from := pfrom, position_to := pto,
               user_callback := ucb, user_callback_lh := ucb_lh, user_data := data\<rparr> =
         (s1\<lparr>link_type := ltype, from_atom := fa, to_atom := None,
               position_from := pfrom, position_to := pto,
               user_callback := ucb, user_callback_lh := ucb_lh, user_data := data\<rparr>)\<lparr>cnt := cnt s2\<rparr>"
  using assms by (cases s1, cases s2) simp

lemma chase_outcome_independent:
  fixes s1 s2 :: "('p, 'w) run"
  assumes "world s1 = world s2" "calls s1 = calls s2"
    and "ucb \<noteq> None \<or> ucb_lh \<noteq> None"
  shows "\<exists>rc r1 r2.
     foreach_link (find_link_type sp) ls
       (s1\<lparr>link_type := ltype, from_atom := fa, to_atom := None,
               position_from := pfrom, position_to := pto,
               user_callback := ucb, user_callback_lh := ucb_lh, user_data := data\<rparr>) = Inr (rc, r1) \<and>
     foreach_link (find_link_type sp) ls
       (s2\<lparr>link_type := ltype, from_atom := fa, to_atom := None,
               position_from := pfrom, position_to := pto,
               user_callback := ucb, user_callback_lh := ucb_lh, user_data := data\<rparr>) = Inr (rc, r2) \<and>
     world r1 = world r2 \<and> calls r1 = calls r2"
proof -
  let ?i1 = "s1\<lparr>link_type := ltype, from_atom := fa, to_atom := None,
               position_from := pfrom, position_to := pto,
               user_callback := ucb, user_callback_lh := ucb_lh, user_data := data\<rparr>"
  let ?i2 = "s2\<lparr>link_type := ltype, from_atom := fa, to_atom := None,
               position_from := pfrom, position_to := pto,
               user_callback := ucb, user_callback_lh := ucb_lh, user_data := data\<rparr>"
  have i2: "?i2 = ?i1\<lparr>cnt := cnt s2\<rparr>" using assms(1,2) by (rule entry_cnt)
  from assms(3) have "user_callback ?i1 \<noteq> None \<or> user_callback_lh ?i1 \<noteq> None"
    "user_callback ?i2 \<noteq> None \<or> user_callback_lh ?i2 \<noteq> None" by simp_all
  from chase_total [OF this(1), of sp ls] chase_total [OF this(2), of sp ls]
  obtain rc1 r1 rc2 r2 where
    run1: "foreach_link (find_link_type sp) ls ?i1 = Inr (rc1, r1)" and
    run2: "foreach_link (find_link_type sp) ls ?i2 = Inr (rc2, r2)" by blast
  from chase_cnt [where sp = sp and ls = ls and s = ?i1 and k = "cnt s2"] run1 run2
  have "rc2 = rc1 \<and> world r2 = world r1 \<and> calls r2 = calls r1"
    by (simp only: i2 [symmetric]) simp
  with run1 run2 show ?thesis by auto
qed

lemma follow_link_same_outside:
  fixes s1 s2 :: "('p, 'w) run"
  assumes "world s1 = world s2" "calls s1 = calls s2"
  shows "(\<exists>rc r1 r2.
            follow_link sp h ltype pfrom pto cb data s1 = Inr (rc, r1) \<and>
            follow_link sp h ltype pfrom pto cb data s2 = Inr (rc, r2) \<and>
            world r1 = world r2 \<and> calls r1 = calls r2) \<and>
         (\<exists>rc r1 r2.
            follow_link_lh sp h ltype pfrom pto cb_lh data s1 = Inr (rc, r1) \<and>
            follow_link_lh sp h ltype pfrom pto cb_lh data s2 = Inr (rc, r2) \<and>
            world r1 = world r2 \<and> calls r1 = calls r2)"
proof (cases "getAtom sp h")
  case None
  with assms show ?thesis by (auto simp add: follow_link_unfold follow_link_lh_unfold)
next
  case (Some atom)
  from chase_outcome_independent [OF assms, where ucb = "Some cb" and ucb_lh = None and sp = sp
      and ls = "incoming sp h" and ltype = ltype and fa = "Some atom" and pfrom = pfrom
      and pto = pto and data = data]
    chase_outcome_independent [OF assms, where ucb = None and ucb_lh = "Some cb_lh" and sp = sp
      and ls = "incoming sp h" and ltype = ltype and fa = "Some atom" and pfrom = pfrom
      and pto = pto and data = data]
    Some
  show ?thesis by (simp add: follow_link_unfold follow_link_lh_unfold)
qed

section \<open>The link-aware form against the plain form\<close>

lemma find_link_type_hit:
  assumes "link_type s = getType sp l"
    and "\<not> (0 \<le> position_from s \<and> position_from s < int (length (outgoing sp (getHandle sp l)))
            \<and> from_atom s \<noteq> Some (outgoing sp (getHandle sp l) ! nat (position_from s)))"
    and "0 \<le> position_to s" "position_to s < int (length (outgoing sp (getHandle sp l)))"
      "position_to s \<noteq> position_from s"
  shows "find_link_type sp l s =
           invoke sp l (outgoing sp (getHandle sp l) ! nat (position_to s))
             (s\<lparr>cnt := int (length (outgoing sp (getHandle sp l))) - 1,
                to_atom := Some (outgoing sp (getHandle sp l) ! nat (position_to s))\<rparr>)"
  using assms by (auto simp add: find_link_type_closed)

lemma find_link_type_lh_related:
  assumes sim: "\<forall>p t l w w'. R w w' \<longrightarrow>
                  fst (cb_lh p t l w') = fst (cb p t w) \<and>
                  R (snd (cb p t w)) (snd (cb_lh p t l w'))"
    and plain: "user_callback s = Some cb"
    and rel: "R (world s) w"
    and step: "find_link_type sp l s = Inr (rc, s')"
  shows "\<exists>w' new. R (world s') w' \<and> calls s' = calls s @ new \<and>
           find_link_type sp l
               (s\<lparr>user_callback := None, user_callback_lh := Some cb_lh, world := w, calls := c\<rparr>) =
             Inr (rc, s'\<lparr>user_callback := None, user_callback_lh := Some cb_lh, world := w',
                       calls := c @ map (with_link sp) new\<rparr>)"
proof -
  let ?out = "outgoing sp (getHandle sp l)"
  let ?s = "s\<lparr>user_callback := None, user_callback_lh := Some cb_lh, world := w, calls := c\<rparr>"
  consider (quiet) "link_type s \<noteq> getType sp l \<or>
        (0 \<le> position_from s \<and> position_from s < int (length ?out)
            \<and> from_atom s \<noteq> Some (?out ! nat (position_from s))) \<or>
        \<not> (0 \<le> position_to s \<and> position_to s < int (length ?out) \<and> position_to s \<noteq> position_from s)"
    | (hit) "link_type s = getType sp l"
        "\<not> (0 \<le> position_from s \<and> position_from s < int (length ?out)
            \<and> from_atom s \<noteq> Some (?out ! nat (position_from s)))"
        "0 \<le> position_to s" "position_to s < int (length ?out)" "position_to s \<noteq> position_from s"
    by blast
  then show ?thesis
  proof cases
    case quiet
    with step rel have "R (world s') w \<and> calls s' = calls s @ [] \<and>
           find_link_type sp l ?s =
             Inr (rc, s'\<lparr>user_callback := None, user_callback_lh := Some cb_lh, world := w,
                       calls := c @ map (with_link sp) []\<rparr>)"
      by (auto simp add: find_link_type_closed split: if_splits)
    then show ?thesis by blast
  next
    case hit
    let ?t = "?out ! nat (position_to s)"
    obtain r w1 where cbr: "cb (user_data s) (getHandle sp ?t) (world s) = (r, w1)" by fastforce
    obtain r2 w2 where cbl: "cb_lh (user_data s) (getHandle sp ?t) (getHandle sp l) w = (r2, w2)"
      by fastforce
    from sim rel have "fst (cb_lh (user_data s) (getHandle sp ?t) (getHandle sp l) w) =
        fst (cb (user_data s) (getHandle sp ?t) (world s)) \<and>
        R (snd (cb (user_data s) (getHandle sp ?t) (world s)))
          (snd (cb_lh (user_data s) (getHandle sp ?t) (getHandle sp l) w))"
      by blast
    with cbr cbl have same: "r2 = r" "R w1 w2" by simp_all
    from step plain cbr have s': "rc = r"
      "s' = s\<lparr>cnt := int (length ?out) - 1, to_atom := Some ?t, world := w1,
             calls := calls s @ [Call l (getHandle sp ?t) None r]\<rparr>"
      unfolding find_link_type_hit [OF hit] by (auto simp add: invoke_def)
    have "find_link_type sp l ?s =
           invoke sp l (outgoing sp (getHandle sp l) ! nat (position_to ?s))
             (?s\<lparr>cnt := int (length (outgoing sp (getHandle sp l))) - 1,
                to_atom := Some (outgoing sp (getHandle sp l) ! nat (position_to ?s))\<rparr>)"
      by (rule find_link_type_hit) (use hit in simp_all)
    with cbl same
    have "find_link_type sp l ?s =
        Inr (r, s\<lparr>user_callback := None, user_callback_lh := Some cb_lh,
                  cnt := int (length ?out) - 1, to_atom := Some ?t, world := w2,
                  calls := c @ [Call l (getHandle sp ?t) (Some (getHandle sp l)) r]\<rparr>)"
      by (simp add: invoke_def)
    with s' same have "R (world s') w2 \<and> calls s' = calls s @ [Call l (getHandle sp ?t) None r] \<and>
           find_link_type sp l ?s =
             Inr (rc, s'\<lparr>user_callback := None, user_callback_lh := Some cb_lh, world := w2,
                       calls := c @ map (with_link sp) [Call l (getHandle sp ?t) None r]\<rparr>)"
      by (simp add: with_link_def)
    then show ?thesis by blast
  qed
qed

lemma chase_lh_related:
  assumes sim: "\<forall>p t l w w'. R w w' \<longrightarrow>
                  fst (cb_lh p t l w') = fst (cb p t w) \<and>
                  R (snd (cb p t w)) (snd (cb_lh p t l w'))"
    and plain: "user_callback s = Some cb"
    and rel: "R (world s) w"
    and run: "foreach_link (find_link_type sp) ls s = Inr (rc, s')"
  shows "\<exists>w' new. R (world s') w' \<and> calls s' = calls s @ new \<and>
           foreach_link (find_link_type sp) ls
               (s\<lparr>user_callback := None, user_callback_lh := Some cb_lh, world := w, calls := c\<rparr>) =
             Inr (rc, s'\<lparr>user_callback := None, user_callback_lh := Some cb_lh, world := w',
                       calls := c @ map (with_link sp) new\<rparr>)"
  using plain rel run
proof (induction ls arbitrary: s w c)
  case Nil
  then have "R (world s') w \<and> calls s' = calls s @ [] \<and>
           foreach_link (find_link_type sp) []
               (s\<lparr>user_callback := None, user_callback_lh := Some cb_lh, world := w, calls := c\<rparr>) =
             Inr (rc, s'\<lparr>user_callback := None, user_callback_lh := Some cb_lh, world := w,
                       calls := c @ map (with_link sp) []\<rparr>)"
    by auto
  then show ?case by blast
next
  case (Cons l ls)
  from Cons.prems(3) show ?case
  proof (cases rule: foreach_link_Cons_cases)
    case halt
    from find_link_type_lh_related [OF sim Cons.prems(1,2) halt(1), where c = c]
    obtain w1 new1 where "R (world s') w1" "calls s' = calls s @ new1"
      "find_link_type sp l
               (s\<lparr>user_callback := None, user_callback_lh := Some cb_lh, world := w, calls := c\<rparr>) =
             Inr (True, s'\<lparr>user_callback := None, user_callback_lh := Some cb_lh, world := w1,
                       calls := c @ map (with_link sp) new1\<rparr>)"
      by blast
    with halt(2) have "R (world s') w1 \<and> calls s' = calls s @ new1 \<and>
           foreach_link (find_link_type sp) (l # ls)
               (s\<lparr>user_callback := None, user_callback_lh := Some cb_lh, world := w, calls := c\<rparr>) =
             Inr (rc, s'\<lparr>user_callback := None, user_callback_lh := Some cb_lh, world := w1,
                       calls := c @ map (with_link sp) new1\<rparr>)"
      by simp
    then show ?thesis by blast
  next
    case (continue s1)
    from find_link_type_lh_related [OF sim Cons.prems(1,2) continue(1), where c = c]
    obtain w1 new1 where new1: "R (world s1) w1" "calls s1 = calls s @ new1"
      "find_link_type sp l
               (s\<lparr>user_callback := None, user_callback_lh := Some cb_lh, world := w, calls := c\<rparr>) =
             Inr (False, s1\<lparr>user_callback := None, user_callback_lh := Some cb_lh, world := w1,
                       calls := c @ map (with_link sp) new1\<rparr>)"
      by blast
    from find_link_type_params(5) [OF continue(1)] Cons.prems(1)
    have "user_callback s1 = Some cb" by simp
    from Cons.IH [OF this new1(1) continue(2), where c = "c @ map (with_link sp) new1"]
    obtain w2 new2 where new2: "R (world s') w2" "calls s' = calls s1 @ new2"
      "foreach_link (find_link_type sp) ls
               (s1\<lparr>user_callback := None, user_callback_lh := Some cb_lh, world := w1,
                    calls := c @ map (with_link sp) new1\<rparr>) =
             Inr (rc, s'\<lparr>user_callback := None, user_callback_lh := Some cb_lh, world := w2,
                       calls := (c @ map (with_link sp) new1) @ map (with_link sp) new2\<rparr>)"
      by blast
    from new1 new2 have "R (world s') w2 \<and> calls s' = calls s @ (new1 @ new2) \<and>
           foreach_link (find_link_type sp) (l # ls)
               (s\<lparr>user_callback := None, user_callback_lh := Some cb_lh, world := w, calls := c\<rparr>) =
             Inr (rc, s'\<lparr>user_callback := None, user_callback_lh := Some cb_lh, world := w2,
                       calls := c @ map (with_link sp) (new1 @ new2)\<rparr>)"
      by simp
    then show ?thesis by blast
  qed
qed

lemma follow_link_lh_related:
  assumes sim: "\<forall>p t l w w'. R w w' \<longrightarrow>
                  fst (cb_lh p t l w') = fst (cb p t w) \<and>
                  R (snd (cb p t w)) (snd (cb_lh p t l w'))"
    and rel: "R (world s) (world s)"
  shows "\<exists>rc r r_lh new.
           follow_link sp h ltype pfrom pto cb data s = Inr (rc, r) \<and>
           follow_link_lh sp h ltype pfrom pto cb_lh data s = Inr (rc, r_lh) \<and>
           R (world r) (world r_lh) \<and>
           calls r = calls s @ new \<and>
           calls r_lh = calls s @
             map (\<lambda>e. Call (via e) (target e) (Some (getHandle sp (via e))) (stop e)) new"
proof (cases "getAtom sp h")
  case None
  with rel have "follow_link sp h ltype pfrom pto cb data s = Inr (False, s) \<and>
           follow_link_lh sp h ltype pfrom pto cb_lh data s = Inr (False, s) \<and>
           R (world s) (world s) \<and>
           calls s = calls s @ [] \<and>
           calls s = calls s @
             map (\<lambda>e. Call (via e) (target e) (Some (getHandle sp (via e))) (stop e)) []"
    by (simp add: follow_link_unfold follow_link_lh_unfold)
  then show ?thesis by blast
next
  case (Some atom)
  let ?i = "s\<lparr>link_type := ltype, from_atom := Some atom, to_atom := None,
               position_from := pfrom, position_to := pto,
               user_callback := Some cb, user_callback_lh := None, user_data := data\<rparr>"
  let ?j = "s\<lparr>link_type := ltype, from_atom := Some atom, to_atom := None,
               position_from := pfrom, position_to := pto,
               user_callback := None, user_callback_lh := Some cb_lh, user_data := data\<rparr>"
  have "user_callback ?i \<noteq> None \<or> user_callback_lh ?i \<noteq> None" by simp
  from chase_total [OF this, of sp "incoming sp h"] obtain rc r
    where run: "foreach_link (find_link_type sp) (incoming sp h) ?i = Inr (rc, r)" by blast
  have plain: "user_callback ?i = Some cb" by simp
  from rel have rel': "R (world ?i) (world s)" by simp
  have j: "?i\<lparr>user_callback := None, user_callback_lh := Some cb_lh, world := world s,
               calls := calls s\<rparr> = ?j"
    by simp
  from chase_lh_related [OF sim plain rel' run, where c = "calls s"]
  obtain w' new where new: "R (world r) w'" "calls r = calls ?i @ new"
    "foreach_link (find_link_type sp) (incoming sp h) ?j =
       Inr (rc, r\<lparr>user_callback := None, user_callback_lh := Some cb_lh, world := w',
                  calls := calls s @ map (with_link sp) new\<rparr>)"
    unfolding j by blast
  let ?r = "r\<lparr>user_callback := None, user_callback_lh := Some cb_lh, world := w',
                  calls := calls s @ map (with_link sp) new\<rparr>"
  from Some run new have "follow_link sp h ltype pfrom pto cb data s = Inr (rc, r) \<and>
           follow_link_lh sp h ltype pfrom pto cb_lh data s = Inr (rc, ?r) \<and>
           R (world r) (world ?r) \<and>
           calls r = calls s @ new \<and>
           calls ?r = calls s @
             map (\<lambda>e. Call (via e) (target e) (Some (getHandle sp (via e))) (stop e)) new"
    by (simp add: follow_link_unfold follow_link_lh_unfold with_link_def [abs_def])
  then show ?thesis by blast
qed

text \<open>
  C7, as amended. For the same store, start handle, link type and positions,
  \<^verbatim>\<open>follow_link_lh\<close> and \<^verbatim>\<open>follow_link\<close> both return without a fault, return the same
  boolean and invoke their visitors for the same candidates with the same targets and the
  same answers in the same order, each invocation of the link-aware form carrying the
  handle of the candidate link it came from, provided the two visitors answer alike:
  the link-aware visitor returns the boolean the plain visitor returns on the same target,
  whatever its link argument and the outside states; or it is the plain visitor with a
  second argument it ignores, and then the two runs also leave the same outside state; or,
  covering both, some relation between the outside states of the two runs holds at the
  start, is kept by an invocation of each visitor on the same target, and makes the two
  answers equal.
\<close>

theorem C7_link_aware_consistency:
  "((\<forall>p t l w w'. fst (cb_lh p t l w') = fst (cb p t w)) \<longrightarrow>
      (\<exists>rc r r_lh new.
         follow_link sp h ltype pfrom pto cb data s = Inr (rc, r) \<and>
         follow_link_lh sp h ltype pfrom pto cb_lh data s = Inr (rc, r_lh) \<and>
         calls r = calls s @ new \<and>
         calls r_lh = calls s @
           map (\<lambda>e. Call (via e) (target e) (Some (getHandle sp (via e))) (stop e)) new)) \<and>
   ((\<forall>p t l w. cb_lh p t l w = cb p t w) \<longrightarrow>
      (\<exists>rc r r_lh new.
         follow_link sp h ltype pfrom pto cb data s = Inr (rc, r) \<and>
         follow_link_lh sp h ltype pfrom pto cb_lh data s = Inr (rc, r_lh) \<and>
         world r_lh = world r \<and>
         calls r = calls s @ new \<and>
         calls r_lh = calls s @
           map (\<lambda>e. Call (via e) (target e) (Some (getHandle sp (via e))) (stop e)) new)) \<and>
   (R (world s) (world s) \<and>
    (\<forall>p t l w w'. R w w' \<longrightarrow>
       fst (cb_lh p t l w') = fst (cb p t w) \<and> R (snd (cb p t w)) (snd (cb_lh p t l w'))) \<longrightarrow>
      (\<exists>rc r r_lh new.
         follow_link sp h ltype pfrom pto cb data s = Inr (rc, r) \<and>
         follow_link_lh sp h ltype pfrom pto cb_lh data s = Inr (rc, r_lh) \<and>
         R (world r) (world r_lh) \<and>
         calls r = calls s @ new \<and>
         calls r_lh = calls s @
           map (\<lambda>e. Call (via e) (target e) (Some (getHandle sp (via e))) (stop e)) new))"
proof (intro conjI impI)
  assume a: "\<forall>p t l w w'. fst (cb_lh p t l w') = fst (cb p t w)"
  then have sim: "\<forall>p t l w w'. (\<lambda>_ _. True) w w' \<longrightarrow>
       fst (cb_lh p t l w') = fst (cb p t w) \<and>
       (\<lambda>_ _. True) (snd (cb p t w)) (snd (cb_lh p t l w'))"
    by simp
  have "(\<lambda>_ _. True) (world s) (world s)" by simp
  from follow_link_lh_related [OF sim this, where sp = sp and h = h and ltype = ltype
      and pfrom = pfrom and pto = pto and data = data]
  show "\<exists>rc r r_lh new.
         follow_link sp h ltype pfrom pto cb data s = Inr (rc, r) \<and>
         follow_link_lh sp h ltype pfrom pto cb_lh data s = Inr (rc, r_lh) \<and>
         calls r = calls s @ new \<and>
         calls r_lh = calls s @
           map (\<lambda>e. Call (via e) (target e) (Some (getHandle sp (via e))) (stop e)) new"
    by blast
next
  assume a: "\<forall>p t l w. cb_lh p t l w = cb p t w"
  then have sim: "\<forall>p t l w w'. w = w' \<longrightarrow>
       fst (cb_lh p t l w') = fst (cb p t w) \<and> snd (cb p t w) = snd (cb_lh p t l w')"
    by simp
  have "world s = world s" by simp
  from follow_link_lh_related [where R = "(=)", OF sim this, where sp = sp and h = h
      and ltype = ltype and pfrom = pfrom and pto = pto and data = data]
  obtain rc r r_lh new where
    "follow_link sp h ltype pfrom pto cb data s = Inr (rc, r)"
    "follow_link_lh sp h ltype pfrom pto cb_lh data s = Inr (rc, r_lh)"
    "world r = world r_lh" "calls r = calls s @ new"
    "calls r_lh = calls s @
           map (\<lambda>e. Call (via e) (target e) (Some (getHandle sp (via e))) (stop e)) new"
    by blast
  then have "follow_link sp h ltype pfrom pto cb data s = Inr (rc, r) \<and>
         follow_link_lh sp h ltype pfrom pto cb_lh data s = Inr (rc, r_lh) \<and>
         world r_lh = world r \<and>
         calls r = calls s @ new \<and>
         calls r_lh = calls s @
           map (\<lambda>e. Call (via e) (target e) (Some (getHandle sp (via e))) (stop e)) new"
    by simp
  then show "\<exists>rc r r_lh new.
         follow_link sp h ltype pfrom pto cb data s = Inr (rc, r) \<and>
         follow_link_lh sp h ltype pfrom pto cb_lh data s = Inr (rc, r_lh) \<and>
         world r_lh = world r \<and>
         calls r = calls s @ new \<and>
         calls r_lh = calls s @
           map (\<lambda>e. Call (via e) (target e) (Some (getHandle sp (via e))) (stop e)) new"
    by blast
next
  assume a: "R (world s) (world s) \<and>
    (\<forall>p t l w w'. R w w' \<longrightarrow>
       fst (cb_lh p t l w') = fst (cb p t w) \<and> R (snd (cb p t w)) (snd (cb_lh p t l w')))"
  then have rel: "R (world s) (world s)"
    and sim: "\<forall>p t l w w'. R w w' \<longrightarrow>
       fst (cb_lh p t l w') = fst (cb p t w) \<and> R (snd (cb p t w)) (snd (cb_lh p t l w'))"
    by simp_all
  from follow_link_lh_related [OF sim rel]
  show "\<exists>rc r r_lh new.
         follow_link sp h ltype pfrom pto cb data s = Inr (rc, r) \<and>
         follow_link_lh sp h ltype pfrom pto cb_lh data s = Inr (rc, r_lh) \<and>
         R (world r) (world r_lh) \<and>
         calls r = calls s @ new \<and>
         calls r_lh = calls s @
           map (\<lambda>e. Call (via e) (target e) (Some (getHandle sp (via e))) (stop e)) new" .
qed

theorem C7_link_aware_consistency_witness:
  "(\<forall>p t l w w'. fst (stop_at_c_lh p t l w') = fst (stop_at_c p t w)) \<and>
   (\<exists>rc r r_lh new.
      follow_link scenario (Handle 1) INHERITANCE_LINK 0 1 stop_at_c () idle = Inr (rc, r) \<and>
      follow_link_lh scenario (Handle 1) INHERITANCE_LINK 0 1 stop_at_c_lh () idle = Inr (rc, r_lh) \<and>
      calls r = calls idle @ new \<and>
      calls r_lh = calls idle @
        map (\<lambda>e. Call (via e) (target e) (Some (getHandle scenario (via e))) (stop e)) new) \<and>
   (\<forall>p t l w. first_only_lh p t l w = first_only p t w) \<and>
   (\<exists>rc r r_lh new.
      follow_link scenario (Handle 1) INHERITANCE_LINK 0 1 first_only () idle = Inr (rc, r) \<and>
      follow_link_lh scenario (Handle 1) INHERITANCE_LINK 0 1 first_only_lh () idle = Inr (rc, r_lh) \<and>
      world r_lh = world r \<and>
      calls r = calls idle @ new \<and>
      calls r_lh = calls idle @
        map (\<lambda>e. Call (via e) (target e) (Some (getHandle scenario (via e))) (stop e)) new) \<and>
   length (world idle) = length (world idle) \<and>
   (\<exists>rc r r_lh new.
      follow_link scenario (Handle 1) INHERITANCE_LINK 0 1 stop_at_second () idle = Inr (rc, r) \<and>
      follow_link_lh scenario (Handle 1) INHERITANCE_LINK 0 1 stop_at_second_lh () idle = Inr (rc, r_lh) \<and>
      length (world r) = length (world r_lh) \<and>
      calls r = calls idle @ new \<and>
      calls r_lh = calls idle @
        map (\<lambda>e. Call (via e) (target e) (Some (getHandle scenario (via e))) (stop e)) new)"
proof -
  have h1: "\<forall>p t l w w'. fst (stop_at_c_lh p t l w') = fst (stop_at_c p t w)"
    by (simp add: stop_at_c_def stop_at_c_lh_def)
  have h2: "\<forall>p t l w. first_only_lh p t l w = first_only p t w"
    by (simp add: first_only_lh_def)
  have h3: "length (world idle) = length (world idle)" by simp
  have h4: "\<forall>p t l w w'. length w = length w' \<longrightarrow>
      fst (stop_at_second_lh p t l w') = fst (stop_at_second p t w) \<and>
      length (snd (stop_at_second p t w)) = length (snd (stop_at_second_lh p t l w'))"
    by (simp add: stop_at_second_def stop_at_second_lh_def)
  note r1 = C7_link_aware_consistency [where cb = stop_at_c and cb_lh = stop_at_c_lh and sp = scenario
      and h = "Handle 1" and ltype = INHERITANCE_LINK and pfrom = 0 and pto = 1 and data = "()"
      and s = idle, THEN conjunct1, THEN mp, OF h1]
  note r2 = C7_link_aware_consistency [where cb = first_only and cb_lh = first_only_lh and sp = scenario
      and h = "Handle 1" and ltype = INHERITANCE_LINK and pfrom = 0 and pto = 1 and data = "()"
      and s = idle, THEN conjunct2, THEN conjunct1, THEN mp, OF h2]
  note r3 = C7_link_aware_consistency [where cb = stop_at_second and cb_lh = stop_at_second_lh
      and R = "\<lambda>w w'. length w = length w'" and sp = scenario
      and h = "Handle 1" and ltype = INHERITANCE_LINK and pfrom = 0 and pto = 1 and data = "()"
      and s = idle, THEN conjunct2, THEN conjunct2, THEN mp, OF conjI [OF h3 h4]]
  from h1 r1 h2 r2 h3 r3 show ?thesis by (intro conjI)
qed

text \<open>
  C7, as stated, fails: nothing ties the answers of the two visitors. In the scenario the
  plain chase from \<open>a\<close> with a visitor that stops at once is shown \<open>b\<close> only and returns
  true, the link-aware chase with a visitor that never stops is shown \<open>b\<close> and \<open>c\<close> and
  returns false.
\<close>

theorem C7_visitors_disagree_counterexample:
  "observed (follow_link scenario (Handle 1) INHERITANCE_LINK 0 1 first_only () idle) =
     Some (True, [Handle 2], [Call (AtomAt 11) (Handle 2) None True]) \<and>
   observed (follow_link_lh scenario (Handle 1) INHERITANCE_LINK 0 1 collect_lh () idle) =
     Some (False, [Handle 2, Handle 3],
       [Call (AtomAt 11) (Handle 2) (Some (Handle 11)) False,
        Call (AtomAt 12) (Handle 3) (Some (Handle 12)) False])"
  by (simp add: observed_def source_run)

section \<open>Which links are reported\<close>

text \<open>
  A candidate whose outgoing set has no member at the target position, and a candidate
  whose member at an existing source position is not the start atom, never reach the
  visitor.
\<close>

lemma target_out_of_range_never_matches:
  assumes "\<not> (0 \<le> position_to s \<and> position_to s < int (length (outgoing sp (getHandle sp l))))"
  shows "\<exists>s'. find_link_type sp l s = Inr (False, s') \<and> calls s' = calls s \<and> world s' = world s"
  using assms by (auto simp add: find_link_type_closed)

lemma source_mismatch_never_matches:
  assumes "0 \<le> position_from s" "position_from s < int (length (outgoing sp (getHandle sp l)))"
    "from_atom s \<noteq> Some (outgoing sp (getHandle sp l) ! nat (position_from s))"
  shows "\<exists>s'. find_link_type sp l s = Inr (False, s') \<and> calls s' = calls s \<and> world s' = world s"
  using assms by (auto simp add: find_link_type_closed)

text \<open>
  A candidate of the requested type is reported when no earlier candidate halted the
  chase, the target position is an index of its outgoing set other than the source
  position, and the source position either holds the start atom or is not an index of the
  outgoing set at all.
\<close>

lemma chase_reports:
  assumes pre: "foreach_link (find_link_type sp) pre s = Inr (False, s1)"
    and ty: "link_type s = getType sp L"
    and cbs: "user_callback s \<noteq> None \<or> user_callback_lh s \<noteq> None"
    and src: "\<not> (0 \<le> position_from s \<and>
                position_from s < int (length (outgoing sp (getHandle sp L))) \<and>
                from_atom s \<noteq> Some (outgoing sp (getHandle sp L) ! nat (position_from s)))"
    and tgt: "0 \<le> position_to s" "position_to s < int (length (outgoing sp (getHandle sp L)))"
      "position_to s \<noteq> position_from s"
  shows "\<exists>rc s' new. foreach_link (find_link_type sp) (pre @ L # post) s = Inr (rc, s') \<and>
           calls s' = calls s @ new \<and>
           (\<exists>e\<in>set new. via e = L \<and>
              target e = getHandle sp (outgoing sp (getHandle sp L) ! nat (position_to s)) \<and>
              link_arg e = (case user_callback s of Some cb \<Rightarrow> None
                            | None \<Rightarrow> Some (getHandle sp L)))"
proof -
  let ?t = "outgoing sp (getHandle sp L) ! nat (position_to s)"
  let ?arg = "case user_callback s of Some cb \<Rightarrow> None | None \<Rightarrow> Some (getHandle sp L)"
  from chase_params [OF pre] have par:
    "link_type s1 = link_type s" "from_atom s1 = from_atom s"
    "position_from s1 = position_from s" "position_to s1 = position_to s"
    "user_callback s1 = user_callback s" "user_callback_lh s1 = user_callback_lh s"
    by simp_all
  from chase_events [OF pre] obtain new0 where new0: "calls s1 = calls s @ new0" by blast
  from cbs par have "user_callback s1 \<noteq> None \<or> user_callback_lh s1 \<noteq> None" by simp
  from find_link_type_total [OF this] obtain rc1 sL
    where stepL: "find_link_type sp L s1 = Inr (rc1, sL)" by blast
  have "find_link_type sp L s1 =
           invoke sp L (outgoing sp (getHandle sp L) ! nat (position_to s1))
             (s1\<lparr>cnt := int (length (outgoing sp (getHandle sp L))) - 1,
                to_atom := Some (outgoing sp (getHandle sp L) ! nat (position_to s1))\<rparr>)"
    by (rule find_link_type_hit) (use ty src tgt par in simp_all)
  with stepL have "invoke sp L ?t
             (s1\<lparr>cnt := int (length (outgoing sp (getHandle sp L))) - 1,
                to_atom := Some ?t\<rparr>) = Inr (rc1, sL)"
    by (simp add: par)
  from invoke_cases [OF this] par have callsL: "calls sL = calls s1 @ [Call L (getHandle sp ?t) ?arg rc1]"
    by auto
  from find_link_type_params [OF stepL] cbs par
  have cbL: "user_callback sL \<noteq> None \<or> user_callback_lh sL \<noteq> None" by simp
  from chase_total [OF cbL, of sp post] obtain rc2 s2
    where rest: "foreach_link (find_link_type sp) post sL = Inr (rc2, s2)" by blast
  from chase_events [OF rest] obtain new2 where new2: "calls s2 = calls sL @ new2" by blast
  have whole: "foreach_link (find_link_type sp) (pre @ L # post) s =
      foreach_link (find_link_type sp) (L # post) s1"
    by (rule foreach_link_passed_prefix [OF pre])
  show ?thesis
  proof (cases rc1)
    case True
    with stepL whole have "foreach_link (find_link_type sp) (pre @ L # post) s = Inr (True, sL)"
      by simp
    moreover from callsL new0
    have "calls sL = calls s @ (new0 @ [Call L (getHandle sp ?t) ?arg rc1])" by simp
    moreover have "\<exists>e\<in>set (new0 @ [Call L (getHandle sp ?t) ?arg rc1]). via e = L \<and>
              target e = getHandle sp ?t \<and> link_arg e = ?arg"
      by simp
    ultimately show ?thesis by blast
  next
    case False
    with stepL whole rest have "foreach_link (find_link_type sp) (pre @ L # post) s = Inr (rc2, s2)"
      by simp
    moreover from callsL new0 new2
    have "calls s2 = calls s @ (new0 @ Call L (getHandle sp ?t) ?arg rc1 # new2)" by simp
    moreover have "\<exists>e\<in>set (new0 @ Call L (getHandle sp ?t) ?arg rc1 # new2). via e = L \<and>
              target e = getHandle sp ?t \<and> link_arg e = ?arg"
      by simp
    ultimately show ?thesis by blast
  qed
qed

lemma follow_link_reports:
  assumes start: "getAtom sp h = Some a"
    and inc: "incoming sp h = pre @ L # post"
    and ty: "getType sp L = ltype"
    and src: "\<not> (0 \<le> pfrom \<and> pfrom < int (length (outgoing sp (getHandle sp L))) \<and>
                outgoing sp (getHandle sp L) ! nat pfrom \<noteq> a)"
    and tgt: "0 \<le> pto" "pto < int (length (outgoing sp (getHandle sp L)))" "pto \<noteq> pfrom"
    and pre: "follow_link (sp\<lparr>incoming := (incoming sp)(h := pre)\<rparr>) h ltype pfrom pto cb data s =
                Inr (False, s_pre)"
  shows "\<exists>rc s' new. follow_link sp h ltype pfrom pto cb data s = Inr (rc, s') \<and>
           calls s' = calls s @ new \<and>
           (\<exists>e\<in>set new. via e = L \<and>
              target e = getHandle sp (outgoing sp (getHandle sp L) ! nat pto) \<and>
              link_arg e = None)"
proof -
  let ?i = "s\<lparr>link_type := ltype, from_atom := Some a, to_atom := None,
               position_from := pfrom, position_to := pto,
               user_callback := Some cb, user_callback_lh := None, user_data := data\<rparr>"
  from pre start have p: "foreach_link (find_link_type sp) pre ?i = Inr (False, s_pre)"
    by (simp add: follow_link_unfold find_link_type_incoming_irrelevant)
  have "\<exists>rc s' new. foreach_link (find_link_type sp) (pre @ L # post) ?i = Inr (rc, s') \<and>
           calls s' = calls ?i @ new \<and>
           (\<exists>e\<in>set new. via e = L \<and>
              target e = getHandle sp (outgoing sp (getHandle sp L) ! nat (position_to ?i)) \<and>
              link_arg e = (case user_callback ?i of Some cb \<Rightarrow> None
                            | None \<Rightarrow> Some (getHandle sp L)))"
    by (rule chase_reports [OF p]) (use ty src tgt in auto)
  with start inc show ?thesis by (simp add: follow_link_unfold)
qed

lemma follow_link_lh_reports:
  assumes start: "getAtom sp h = Some a"
    and inc: "incoming sp h = pre @ L # post"
    and ty: "getType sp L = ltype"
    and src: "\<not> (0 \<le> pfrom \<and> pfrom < int (length (outgoing sp (getHandle sp L))) \<and>
                outgoing sp (getHandle sp L) ! nat pfrom \<noteq> a)"
    and tgt: "0 \<le> pto" "pto < int (length (outgoing sp (getHandle sp L)))" "pto \<noteq> pfrom"
    and pre: "follow_link_lh (sp\<lparr>incoming := (incoming sp)(h := pre)\<rparr>) h ltype pfrom pto cb data s =
                Inr (False, s_pre)"
  shows "\<exists>rc s' new. follow_link_lh sp h ltype pfrom pto cb data s = Inr (rc, s') \<and>
           calls s' = calls s @ new \<and>
           (\<exists>e\<in>set new. via e = L \<and>
              target e = getHandle sp (outgoing sp (getHandle sp L) ! nat pto) \<and>
              link_arg e = Some (getHandle sp L))"
proof -
  let ?i = "s\<lparr>link_type := ltype, from_atom := Some a, to_atom := None,
               position_from := pfrom, position_to := pto,
               user_callback := None, user_callback_lh := Some cb, user_data := data\<rparr>"
  from pre start have p: "foreach_link (find_link_type sp) pre ?i = Inr (False, s_pre)"
    by (simp add: follow_link_lh_unfold find_link_type_incoming_irrelevant)
  have "\<exists>rc s' new. foreach_link (find_link_type sp) (pre @ L # post) ?i = Inr (rc, s') \<and>
           calls s' = calls ?i @ new \<and>
           (\<exists>e\<in>set new. via e = L \<and>
              target e = getHandle sp (outgoing sp (getHandle sp L) ! nat (position_to ?i)) \<and>
              link_arg e = (case user_callback ?i of Some cb \<Rightarrow> None
                            | None \<Rightarrow> Some (getHandle sp L)))"
    by (rule chase_reports [OF p]) (use ty src tgt in auto)
  with start inc show ?thesis by (simp add: follow_link_lh_unfold)
qed

text \<open>
  C1. The claim says that a link never matches when the source position or the target
  position is not below its arity. On the scenario, where both inheritance links have
  arity 2, the chase from \<open>a\<close> with source position 2 and target position 1 invokes the
  visitor for both links, with \<open>b\<close> and with \<open>c\<close>: the identity check of
  \<^verbatim>\<open>pursue_link\<close> is never reached and the target recorded at position 1 stays.
\<close>

theorem C1_source_position_out_of_range:
  "length (outgoing scenario (Handle 11)) = 2 \<and> length (outgoing scenario (Handle 12)) = 2 \<and>
   observed (follow_link scenario (Handle 1) INHERITANCE_LINK 2 1 collect () idle) =
     Some (False, [Handle 2, Handle 3],
       [Call (AtomAt 11) (Handle 2) None False, Call (AtomAt 12) (Handle 3) None False]) \<and>
   observed (follow_link_lh scenario (Handle 1) INHERITANCE_LINK 2 1 collect_lh () idle) =
     Some (False, [Handle 2, Handle 3],
       [Call (AtomAt 11) (Handle 2) (Some (Handle 11)) False,
        Call (AtomAt 12) (Handle 3) (Some (Handle 12)) False])"
  by (simp add: observed_def source_run)

text \<open>
  C2. The claim says that no visitor call occurs for a candidate of the requested type in
  which the start atom does not occupy the source position. On the store with the single
  link \<open>ListLink (a)\<close>, the chase from \<open>a\<close> with source position 1 and target position 0
  (the positions of \<^verbatim>\<open>backtrack_binary_link\<close>) invokes the visitor with \<open>a\<close>, although
  no member of the link, and so not \<open>a\<close>, occupies position 1.
\<close>

theorem C2_start_absent_from_source_position:
  "getAtom singleton_store (Handle 1) = Some (AtomAt 1) \<and>
   incoming singleton_store (Handle 1) = [AtomAt 21] \<and>
   getType singleton_store (AtomAt 21) = LIST_LINK \<and>
   outgoing singleton_store (getHandle singleton_store (AtomAt 21)) = [AtomAt 1] \<and>
   observed (follow_link singleton_store (Handle 1) LIST_LINK 1 0 collect () idle) =
     Some (False, [Handle 1], [Call (AtomAt 21) (Handle 1) None False]) \<and>
   observed (backtrack_binary_link singleton_store (Handle 1) LIST_LINK collect () idle) =
     Some (False, [Handle 1], [Call (AtomAt 21) (Handle 1) None False])"
  by (simp add: observed_def source_run singleton_store_def LIST_LINK_def
      backtrack_binary_link_def)

section \<open>The binary-link wrappers as chases\<close>

text \<open>
  C6, as amended. The forward wrappers are \<^verbatim>\<open>follow_link\<close> and \<^verbatim>\<open>follow_link_lh\<close> at
  the positions (0, 1), the backward wrappers at the positions (1, 0). For a binary link
  \<open>L = (A, B)\<close> of type \<open>T\<close> in the incoming set of the start atom, the forward chase from
  \<open>A\<close> invokes the visitor for \<open>L\<close> with the handle of \<open>B\<close>, and the backward chase from
  \<open>B\<close> invokes it for \<open>L\<close> with the handle of \<open>A\<close>, provided the visitor did not halt the
  chase at a candidate enumerated before \<open>L\<close>.
\<close>

theorem C6_binary_wrappers:
  "follow_binary_link sp h ltype cb data cl = follow_link sp h ltype 0 1 cb data cl \<and>
   follow_binary_link_lh sp h ltype cb_lh data cl = follow_link_lh sp h ltype 0 1 cb_lh data cl \<and>
   backtrack_binary_link sp h ltype cb data cl = follow_link sp h ltype 1 0 cb data cl \<and>
   backtrack_binary_link_lh sp h ltype cb_lh data cl = follow_link_lh sp h ltype 1 0 cb_lh data cl \<and>
   (getAtom sp h = Some A \<and> incoming sp h = pre @ L # post \<and> getType sp L = ltype \<and>
    outgoing sp (getHandle sp L) = [A, B] \<and>
    follow_binary_link (sp\<lparr>incoming := (incoming sp)(h := pre)\<rparr>) h ltype cb data cl =
      Inr (False, s_pre) \<longrightarrow>
      (\<exists>rc s' new. follow_binary_link sp h ltype cb data cl = Inr (rc, s') \<and>
         calls s' = calls cl @ new \<and>
         (\<exists>e\<in>set new. via e = L \<and> target e = getHandle sp B \<and> link_arg e = None))) \<and>
   (getAtom sp h = Some B \<and> incoming sp h = pre @ L # post \<and> getType sp L = ltype \<and>
    outgoing sp (getHandle sp L) = [A, B] \<and>
    backtrack_binary_link (sp\<lparr>incoming := (incoming sp)(h := pre)\<rparr>) h ltype cb data cl =
      Inr (False, s_pre) \<longrightarrow>
      (\<exists>rc s' new. backtrack_binary_link sp h ltype cb data cl = Inr (rc, s') \<and>
         calls s' = calls cl @ new \<and>
         (\<exists>e\<in>set new. via e = L \<and> target e = getHandle sp A \<and> link_arg e = None))) \<and>
   (getAtom sp h = Some A \<and> incoming sp h = pre @ L # post \<and> getType sp L = ltype \<and>
    outgoing sp (getHandle sp L) = [A, B] \<and>
    follow_binary_link_lh (sp\<lparr>incoming := (incoming sp)(h := pre)\<rparr>) h ltype cb_lh data cl =
      Inr (False, s_pre) \<longrightarrow>
      (\<exists>rc s' new. follow_binary_link_lh sp h ltype cb_lh data cl = Inr (rc, s') \<and>
         calls s' = calls cl @ new \<and>
         (\<exists>e\<in>set new. via e = L \<and> target e = getHandle sp B \<and>
            link_arg e = Some (getHandle sp L)))) \<and>
   (getAtom sp h = Some B \<and> incoming sp h = pre @ L # post \<and> getType sp L = ltype \<and>
    outgoing sp (getHandle sp L) = [A, B] \<and>
    backtrack_binary_link_lh (sp\<lparr>incoming := (incoming sp)(h := pre)\<rparr>) h ltype cb_lh data cl =
      Inr (False, s_pre) \<longrightarrow>
      (\<exists>rc s' new. backtrack_binary_link_lh sp h ltype cb_lh data cl = Inr (rc, s') \<and>
         calls s' = calls cl @ new \<and>
         (\<exists>e\<in>set new. via e = L \<and> target e = getHandle sp A \<and>
            link_arg e = Some (getHandle sp L))))"
proof (intro conjI impI)
  show "follow_binary_link sp h ltype cb data cl = follow_link sp h ltype 0 1 cb data cl"
    by (simp add: follow_binary_link_def)
  show "follow_binary_link_lh sp h ltype cb_lh data cl = follow_link_lh sp h ltype 0 1 cb_lh data cl"
    by (simp add: follow_binary_link_lh_def)
  show "backtrack_binary_link sp h ltype cb data cl = follow_link sp h ltype 1 0 cb data cl"
    by (simp add: backtrack_binary_link_def)
  show "backtrack_binary_link_lh sp h ltype cb_lh data cl = follow_link_lh sp h ltype 1 0 cb_lh data cl"
    by (simp add: backtrack_binary_link_lh_def)
next
  assume a: "getAtom sp h = Some A \<and> incoming sp h = pre @ L # post \<and> getType sp L = ltype \<and>
    outgoing sp (getHandle sp L) = [A, B] \<and>
    follow_binary_link (sp\<lparr>incoming := (incoming sp)(h := pre)\<rparr>) h ltype cb data cl =
      Inr (False, s_pre)"
  then have "\<exists>rc s' new. follow_link sp h ltype 0 1 cb data cl = Inr (rc, s') \<and>
           calls s' = calls cl @ new \<and>
           (\<exists>e\<in>set new. via e = L \<and>
              target e = getHandle sp (outgoing sp (getHandle sp L) ! nat 1) \<and>
              link_arg e = None)"
    by (intro follow_link_reports [where a = A and pre = pre and post = post and s_pre = s_pre])
      (simp_all add: follow_binary_link_def)
  with a show "\<exists>rc s' new. follow_binary_link sp h ltype cb data cl = Inr (rc, s') \<and>
         calls s' = calls cl @ new \<and>
         (\<exists>e\<in>set new. via e = L \<and> target e = getHandle sp B \<and> link_arg e = None)"
    by (simp add: follow_binary_link_def)
next
  assume a: "getAtom sp h = Some B \<and> incoming sp h = pre @ L # post \<and> getType sp L = ltype \<and>
    outgoing sp (getHandle sp L) = [A, B] \<and>
    backtrack_binary_link (sp\<lparr>incoming := (incoming sp)(h := pre)\<rparr>) h ltype cb data cl =
      Inr (False, s_pre)"
  then have "\<exists>rc s' new. follow_link sp h ltype 1 0 cb data cl = Inr (rc, s') \<and>
           calls s' = calls cl @ new \<and>
           (\<exists>e\<in>set new. via e = L \<and>
              target e = getHandle sp (outgoing sp (getHandle sp L) ! nat 0) \<and>
              link_arg e = None)"
    by (intro follow_link_reports [where a = B and pre = pre and post = post and s_pre = s_pre])
      (simp_all add: backtrack_binary_link_def)
  with a show "\<exists>rc s' new. backtrack_binary_link sp h ltype cb data cl = Inr (rc, s') \<and>
         calls s' = calls cl @ new \<and>
         (\<exists>e\<in>set new. via e = L \<and> target e = getHandle sp A \<and> link_arg e = None)"
    by (simp add: backtrack_binary_link_def)
next
  assume a: "getAtom sp h = Some A \<and> incoming sp h = pre @ L # post \<and> getType sp L = ltype \<and>
    outgoing sp (getHandle sp L) = [A, B] \<and>
    follow_binary_link_lh (sp\<lparr>incoming := (incoming sp)(h := pre)\<rparr>) h ltype cb_lh data cl =
      Inr (False, s_pre)"
  then have "\<exists>rc s' new. follow_link_lh sp h ltype 0 1 cb_lh data cl = Inr (rc, s') \<and>
           calls s' = calls cl @ new \<and>
           (\<exists>e\<in>set new. via e = L \<and>
              target e = getHandle sp (outgoing sp (getHandle sp L) ! nat 1) \<and>
              link_arg e = Some (getHandle sp L))"
    by (intro follow_link_lh_reports [where a = A and pre = pre and post = post and s_pre = s_pre])
      (simp_all add: follow_binary_link_lh_def)
  with a show "\<exists>rc s' new. follow_binary_link_lh sp h ltype cb_lh data cl = Inr (rc, s') \<and>
         calls s' = calls cl @ new \<and>
         (\<exists>e\<in>set new. via e = L \<and> target e = getHandle sp B \<and>
            link_arg e = Some (getHandle sp L))"
    by (simp add: follow_binary_link_lh_def)
next
  assume a: "getAtom sp h = Some B \<and> incoming sp h = pre @ L # post \<and> getType sp L = ltype \<and>
    outgoing sp (getHandle sp L) = [A, B] \<and>
    backtrack_binary_link_lh (sp\<lparr>incoming := (incoming sp)(h := pre)\<rparr>) h ltype cb_lh data cl =
      Inr (False, s_pre)"
  then have "\<exists>rc s' new. follow_link_lh sp h ltype 1 0 cb_lh data cl = Inr (rc, s') \<and>
           calls s' = calls cl @ new \<and>
           (\<exists>e\<in>set new. via e = L \<and>
              target e = getHandle sp (outgoing sp (getHandle sp L) ! nat 0) \<and>
              link_arg e = Some (getHandle sp L))"
    by (intro follow_link_lh_reports [where a = B and pre = pre and post = post and s_pre = s_pre])
      (simp_all add: backtrack_binary_link_lh_def)
  with a show "\<exists>rc s' new. backtrack_binary_link_lh sp h ltype cb_lh data cl = Inr (rc, s') \<and>
         calls s' = calls cl @ new \<and>
         (\<exists>e\<in>set new. via e = L \<and> target e = getHandle sp A \<and>
            link_arg e = Some (getHandle sp L))"
    by (simp add: backtrack_binary_link_lh_def)
qed

theorem C6_binary_wrappers_witness:
  "getAtom scenario (Handle 1) = Some (AtomAt 1) \<and>
   incoming scenario (Handle 1) = [AtomAt 11] @ AtomAt 12 # [AtomAt 13] \<and>
   getAtom scenario (Handle 3) = Some (AtomAt 3) \<and>
   incoming scenario (Handle 3) = [] @ AtomAt 12 # [] \<and>
   getType scenario (AtomAt 12) = INHERITANCE_LINK \<and>
   outgoing scenario (getHandle scenario (AtomAt 12)) = [AtomAt 1, AtomAt 3] \<and>
   (\<exists>s_pre. follow_binary_link (scenario\<lparr>incoming := (incoming scenario)(Handle 1 := [AtomAt 11])\<rparr>)
        (Handle 1) INHERITANCE_LINK collect () idle = Inr (False, s_pre)) \<and>
   (\<exists>rc s' new. follow_binary_link scenario (Handle 1) INHERITANCE_LINK collect () idle = Inr (rc, s') \<and>
      calls s' = calls idle @ new \<and>
      (\<exists>e\<in>set new. via e = AtomAt 12 \<and> target e = getHandle scenario (AtomAt 3) \<and>
         link_arg e = None)) \<and>
   (\<exists>s_pre. backtrack_binary_link (scenario\<lparr>incoming := (incoming scenario)(Handle 3 := [])\<rparr>)
        (Handle 3) INHERITANCE_LINK first_only () idle = Inr (False, s_pre)) \<and>
   (\<exists>rc s' new. backtrack_binary_link scenario (Handle 3) INHERITANCE_LINK first_only () idle = Inr (rc, s') \<and>
      calls s' = calls idle @ new \<and>
      (\<exists>e\<in>set new. via e = AtomAt 12 \<and> target e = getHandle scenario (AtomAt 1) \<and>
         link_arg e = None)) \<and>
   (\<exists>s_pre. follow_binary_link_lh (scenario\<lparr>incoming := (incoming scenario)(Handle 1 := [AtomAt 11])\<rparr>)
        (Handle 1) INHERITANCE_LINK collect_lh () idle = Inr (False, s_pre)) \<and>
   (\<exists>rc s' new. follow_binary_link_lh scenario (Handle 1) INHERITANCE_LINK collect_lh () idle = Inr (rc, s') \<and>
      calls s' = calls idle @ new \<and>
      (\<exists>e\<in>set new. via e = AtomAt 12 \<and> target e = getHandle scenario (AtomAt 3) \<and>
         link_arg e = Some (getHandle scenario (AtomAt 12)))) \<and>
   (\<exists>s_pre. backtrack_binary_link_lh (scenario\<lparr>incoming := (incoming scenario)(Handle 3 := [])\<rparr>)
        (Handle 3) INHERITANCE_LINK first_only_lh () idle = Inr (False, s_pre)) \<and>
   (\<exists>rc s' new. backtrack_binary_link_lh scenario (Handle 3) INHERITANCE_LINK first_only_lh () idle = Inr (rc, s') \<and>
      calls s' = calls idle @ new \<and>
      (\<exists>e\<in>set new. via e = AtomAt 12 \<and> target e = getHandle scenario (AtomAt 1) \<and>
         link_arg e = Some (getHandle scenario (AtomAt 12))))"
proof -
  have a1: "getAtom scenario (Handle 1) = Some (AtomAt 1)" by (simp add: scenario_def)
  have i1: "incoming scenario (Handle 1) = [AtomAt 11] @ AtomAt 12 # [AtomAt 13]"
    by (simp add: scenario_def)
  have a3: "getAtom scenario (Handle 3) = Some (AtomAt 3)" by (simp add: scenario_def)
  have i3: "incoming scenario (Handle 3) = [] @ AtomAt 12 # []" by (simp add: scenario_def)
  have ty: "getType scenario (AtomAt 12) = INHERITANCE_LINK" by (simp add: scenario_def)
  have out: "outgoing scenario (getHandle scenario (AtomAt 12)) = [AtomAt 1, AtomAt 3]"
    by (simp add: scenario_def)
  obtain p1 where p1: "follow_binary_link (scenario\<lparr>incoming := (incoming scenario)(Handle 1 := [AtomAt 11])\<rparr>)
        (Handle 1) INHERITANCE_LINK collect () idle = Inr (False, p1)"
    by (simp add: scenario_run follow_binary_link_def)
  obtain p2 where p2: "backtrack_binary_link (scenario\<lparr>incoming := (incoming scenario)(Handle 3 := [])\<rparr>)
        (Handle 3) INHERITANCE_LINK first_only () idle = Inr (False, p2)"
    by (simp add: scenario_run backtrack_binary_link_def)
  obtain p3 where p3: "follow_binary_link_lh (scenario\<lparr>incoming := (incoming scenario)(Handle 1 := [AtomAt 11])\<rparr>)
        (Handle 1) INHERITANCE_LINK collect_lh () idle = Inr (False, p3)"
    by (simp add: scenario_run follow_binary_link_lh_def)
  obtain p4 where p4: "backtrack_binary_link_lh (scenario\<lparr>incoming := (incoming scenario)(Handle 3 := [])\<rparr>)
        (Handle 3) INHERITANCE_LINK first_only_lh () idle = Inr (False, p4)"
    by (simp add: scenario_run backtrack_binary_link_lh_def)
  note forward = conjI [OF a1 conjI [OF i1 conjI [OF ty out]]]
  note backward = conjI [OF a3 conjI [OF i3 conjI [OF ty out]]]
  have r1: "\<exists>rc s' new. follow_binary_link scenario (Handle 1) INHERITANCE_LINK collect () idle = Inr (rc, s') \<and>
      calls s' = calls idle @ new \<and>
      (\<exists>e\<in>set new. via e = AtomAt 12 \<and> target e = getHandle scenario (AtomAt 3) \<and>
         link_arg e = None)"
    by (rule C6_binary_wrappers [where h = "Handle 1" and A = "AtomAt 1" and pre = "[AtomAt 11]" and post = "[AtomAt 13]" and s_pre = p1,
        THEN conjunct2, THEN conjunct2, THEN conjunct2, THEN conjunct2,
        THEN conjunct1, THEN mp])
      (intro conjI a1 i1 ty out p1)
  have r2: "\<exists>rc s' new. backtrack_binary_link scenario (Handle 3) INHERITANCE_LINK first_only () idle = Inr (rc, s') \<and>
      calls s' = calls idle @ new \<and>
      (\<exists>e\<in>set new. via e = AtomAt 12 \<and> target e = getHandle scenario (AtomAt 1) \<and>
         link_arg e = None)"
    by (rule C6_binary_wrappers [where h = "Handle 3" and B = "AtomAt 3" and pre = "[]" and post = "[]" and s_pre = p2,
        THEN conjunct2, THEN conjunct2, THEN conjunct2, THEN conjunct2,
        THEN conjunct2, THEN conjunct1, THEN mp])
      (intro conjI a3 i3 ty out p2)
  have r3: "\<exists>rc s' new. follow_binary_link_lh scenario (Handle 1) INHERITANCE_LINK collect_lh () idle = Inr (rc, s') \<and>
      calls s' = calls idle @ new \<and>
      (\<exists>e\<in>set new. via e = AtomAt 12 \<and> target e = getHandle scenario (AtomAt 3) \<and>
         link_arg e = Some (getHandle scenario (AtomAt 12)))"
    by (rule C6_binary_wrappers [where h = "Handle 1" and A = "AtomAt 1" and pre = "[AtomAt 11]" and post = "[AtomAt 13]" and s_pre = p3,
        THEN conjunct2, THEN conjunct2, THEN conjunct2, THEN conjunct2,
        THEN conjunct2, THEN conjunct2, THEN conjunct1, THEN mp])
      (intro conjI a1 i1 ty out p3)
  have r4: "\<exists>rc s' new. backtrack_binary_link_lh scenario (Handle 3) INHERITANCE_LINK first_only_lh () idle = Inr (rc, s') \<and>
      calls s' = calls idle @ new \<and>
      (\<exists>e\<in>set new. via e = AtomAt 12 \<and> target e = getHandle scenario (AtomAt 1) \<and>
         link_arg e = Some (getHandle scenario (AtomAt 12)))"
    by (rule C6_binary_wrappers [where h = "Handle 3" and B = "AtomAt 3" and pre = "[]" and post = "[]" and s_pre = p4,
        THEN conjunct2, THEN conjunct2, THEN conjunct2, THEN conjunct2,
        THEN conjunct2, THEN conjunct2, THEN conjunct2, THEN mp])
      (intro conjI a3 i3 ty out p4)
  from p1 have e1: "\<exists>s_pre. follow_binary_link (scenario\<lparr>incoming := (incoming scenario)(Handle 1 := [AtomAt 11])\<rparr>)
        (Handle 1) INHERITANCE_LINK collect () idle = Inr (False, s_pre)" by blast
  from p2 have e2: "\<exists>s_pre. backtrack_binary_link (scenario\<lparr>incoming := (incoming scenario)(Handle 3 := [])\<rparr>)
        (Handle 3) INHERITANCE_LINK first_only () idle = Inr (False, s_pre)" by blast
  from p3 have e3: "\<exists>s_pre. follow_binary_link_lh (scenario\<lparr>incoming := (incoming scenario)(Handle 1 := [AtomAt 11])\<rparr>)
        (Handle 1) INHERITANCE_LINK collect_lh () idle = Inr (False, s_pre)" by blast
  from p4 have e4: "\<exists>s_pre. backtrack_binary_link_lh (scenario\<lparr>incoming := (incoming scenario)(Handle 3 := [])\<rparr>)
        (Handle 3) INHERITANCE_LINK first_only_lh () idle = Inr (False, s_pre)" by blast
  from a1 i1 a3 i3 ty out e1 r1 e2 r2 e3 r3 e4 r4 show ?thesis by (intro conjI)
qed

text \<open>
  C6, as stated, fails: in the scenario \<open>L2 = (a, c)\<close> is an inheritance link, but the
  forward chase from \<open>a\<close> with a visitor that stops at its first invocation reports \<open>b\<close>
  only; the chase is over before \<open>L2\<close> is examined.
\<close>

theorem C6_halted_before_counterexample:
  "getAtom scenario (Handle 1) = Some (AtomAt 1) \<and>
   incoming scenario (Handle 1) = [AtomAt 11, AtomAt 12, AtomAt 13] \<and>
   getType scenario (AtomAt 12) = INHERITANCE_LINK \<and>
   outgoing scenario (getHandle scenario (AtomAt 12)) = [AtomAt 1, AtomAt 3] \<and>
   getHandle scenario (AtomAt 3) = Handle 3 \<and>
   observed (follow_binary_link scenario (Handle 1) INHERITANCE_LINK first_only () idle) =
     Some (True, [Handle 2], [Call (AtomAt 11) (Handle 2) None True])"
  by (simp add: observed_def source_run follow_binary_link_def)

section \<open>Independence from the outside state\<close>

text \<open>
  When the boolean a visitor returns depends on its arguments only, a chase makes the same
  invocations and returns the same boolean from any scratch fields, outside state and
  history.
\<close>

lemma invoke_answers:
  assumes p1: "\<forall>cb. user_callback s = Some cb \<longrightarrow> (\<forall>p t w w'. fst (cb p t w) = fst (cb p t w'))"
    and p2: "\<forall>cb. user_callback_lh s = Some cb \<longrightarrow>
               (\<forall>p t l w w'. fst (cb p t l w) = fst (cb p t l w'))"
    and step: "invoke sp l t s = Inr (rc, s')"
  shows "\<exists>w'. invoke sp l t (s\<lparr>world := w, calls := c\<rparr>) =
           Inr (rc, s\<lparr>world := w',
                      calls := c @ [Call l (getHandle sp t)
                        (case user_callback s of Some cb \<Rightarrow> None
                         | None \<Rightarrow> Some (getHandle sp l)) rc]\<rparr>)"
proof (cases "user_callback s")
  case (Some cb)
  obtain r1 w1 where a: "cb (user_data s) (getHandle sp t) (world s) = (r1, w1)" by fastforce
  obtain r2 w2 where b: "cb (user_data s) (getHandle sp t) w = (r2, w2)" by fastforce
  from p1 Some have "fst (cb (user_data s) (getHandle sp t) (world s)) =
      fst (cb (user_data s) (getHandle sp t) w)" by blast
  with a b have "r2 = r1" by simp
  moreover from step Some a have "rc = r1" by (simp add: invoke_def)
  ultimately have "invoke sp l t (s\<lparr>world := w, calls := c\<rparr>) =
           Inr (rc, s\<lparr>world := w2,
                      calls := c @ [Call l (getHandle sp t)
                        (case user_callback s of Some cb \<Rightarrow> None
                         | None \<Rightarrow> Some (getHandle sp l)) rc]\<rparr>)"
    using Some b by (simp add: invoke_def)
  then show ?thesis by blast
next
  case None
  show ?thesis
  proof (cases "user_callback_lh s")
    case n: None
    with None step show ?thesis by (simp add: invoke_def)
  next
    case (Some cb)
    obtain r1 w1 where a: "cb (user_data s) (getHandle sp t) (getHandle sp l) (world s) = (r1, w1)"
      by fastforce
    obtain r2 w2 where b: "cb (user_data s) (getHandle sp t) (getHandle sp l) w = (r2, w2)"
      by fastforce
    from p2 Some have "fst (cb (user_data s) (getHandle sp t) (getHandle sp l) (world s)) =
        fst (cb (user_data s) (getHandle sp t) (getHandle sp l) w)" by blast
    with a b have "r2 = r1" by simp
    moreover from step None Some a have "rc = r1" by (simp add: invoke_def)
    ultimately have "invoke sp l t (s\<lparr>world := w, calls := c\<rparr>) =
           Inr (rc, s\<lparr>world := w2,
                      calls := c @ [Call l (getHandle sp t)
                        (case user_callback s of Some cb \<Rightarrow> None
                         | None \<Rightarrow> Some (getHandle sp l)) rc]\<rparr>)"
      using None Some b by (simp add: invoke_def)
    then show ?thesis by blast
  qed
qed

lemma find_link_type_answers:
  assumes p1: "\<forall>cb. user_callback s = Some cb \<longrightarrow> (\<forall>p t w w'. fst (cb p t w) = fst (cb p t w'))"
    and p2: "\<forall>cb. user_callback_lh s = Some cb \<longrightarrow>
               (\<forall>p t l w w'. fst (cb p t l w) = fst (cb p t l w'))"
    and step: "find_link_type sp l s = Inr (rc, s')"
  shows "\<exists>k' ta' w' new. calls s' = calls s @ new \<and>
           find_link_type sp l (s\<lparr>cnt := k, to_atom := ta, world := w, calls := c\<rparr>) =
             Inr (rc, s'\<lparr>cnt := k', to_atom := ta', world := w', calls := c @ new\<rparr>)"
proof -
  let ?out = "outgoing sp (getHandle sp l)"
  let ?s = "s\<lparr>cnt := k, to_atom := ta, world := w, calls := c\<rparr>"
  consider (skip) "link_type s \<noteq> getType sp l"
    | (mismatch) "link_type s = getType sp l" "0 \<le> position_from s"
        "position_from s < int (length ?out)" "from_atom s \<noteq> Some (?out ! nat (position_from s))"
    | (hit) "link_type s = getType sp l"
        "\<not> (0 \<le> position_from s \<and> position_from s < int (length ?out)
            \<and> from_atom s \<noteq> Some (?out ! nat (position_from s)))"
        "0 \<le> position_to s" "position_to s < int (length ?out)" "position_to s \<noteq> position_from s"
    | (miss) "link_type s = getType sp l"
        "\<not> (0 \<le> position_from s \<and> position_from s < int (length ?out)
            \<and> from_atom s \<noteq> Some (?out ! nat (position_from s)))"
        "\<not> (0 \<le> position_to s \<and> position_to s < int (length ?out) \<and> position_to s \<noteq> position_from s)"
    by blast
  then show ?thesis
  proof cases
    case skip
    with step have "rc = False" "s' = s" by (simp_all add: find_link_type_closed)
    with skip have "calls s' = calls s @ [] \<and>
           find_link_type sp l ?s = Inr (rc, s'\<lparr>cnt := k, to_atom := ta, world := w, calls := c @ []\<rparr>)"
      by (simp add: find_link_type_closed)
    then show ?thesis by blast
  next
    case mismatch
    with step have "rc = False" "s' = s\<lparr>cnt := position_from s, to_atom := None\<rparr>"
      by (simp_all add: find_link_type_closed)
    with mismatch have "calls s' = calls s @ [] \<and>
           find_link_type sp l ?s =
             Inr (rc, s'\<lparr>cnt := position_from s, to_atom := None, world := w, calls := c @ []\<rparr>)"
      by (simp add: find_link_type_closed)
    then show ?thesis by blast
  next
    case miss
    with step have "rc = False" "s' = s\<lparr>cnt := int (length ?out) - 1, to_atom := None\<rparr>"
      by (simp_all add: find_link_type_closed)
    with miss have "calls s' = calls s @ [] \<and>
           find_link_type sp l ?s =
             Inr (rc, s'\<lparr>cnt := int (length ?out) - 1, to_atom := None, world := w, calls := c @ []\<rparr>)"
      by (auto simp add: find_link_type_closed)
    then show ?thesis by blast
  next
    case hit
    let ?t = "?out ! nat (position_to s)"
    let ?s2 = "s\<lparr>cnt := int (length ?out) - 1, to_atom := Some ?t\<rparr>"
    let ?e = "Call l (getHandle sp ?t)
                (case user_callback s of Some cb \<Rightarrow> None | None \<Rightarrow> Some (getHandle sp l)) rc"
    from step have inv: "invoke sp l ?t ?s2 = Inr (rc, s')"
      unfolding find_link_type_hit [OF hit] .
    from invoke_cases [OF inv] obtain w1 where s': "s' = ?s2\<lparr>world := w1, calls := calls s @ [?e]\<rparr>"
      by auto
    from p1 p2 have "\<forall>cb. user_callback ?s2 = Some cb \<longrightarrow> (\<forall>p t w w'. fst (cb p t w) = fst (cb p t w'))"
      "\<forall>cb. user_callback_lh ?s2 = Some cb \<longrightarrow> (\<forall>p t l w w'. fst (cb p t l w) = fst (cb p t l w'))"
      by simp_all
    from invoke_answers [OF this inv, where w = w and c = c] obtain w2 where
      inv2: "invoke sp l ?t (?s2\<lparr>world := w, calls := c\<rparr>) =
               Inr (rc, ?s2\<lparr>world := w2, calls := c @ [?e]\<rparr>)"
      by auto
    have "find_link_type sp l ?s =
           invoke sp l (outgoing sp (getHandle sp l) ! nat (position_to ?s))
             (?s\<lparr>cnt := int (length (outgoing sp (getHandle sp l))) - 1,
                to_atom := Some (outgoing sp (getHandle sp l) ! nat (position_to ?s))\<rparr>)"
      by (rule find_link_type_hit) (use hit in simp_all)
    moreover have "?s\<lparr>cnt := int (length (outgoing sp (getHandle sp l))) - 1,
                to_atom := Some (outgoing sp (getHandle sp l) ! nat (position_to ?s))\<rparr> =
              ?s2\<lparr>world := w, calls := c\<rparr>"
      by simp
    moreover have "position_to ?s = position_to s" by simp
    ultimately have "find_link_type sp l ?s = Inr (rc, ?s2\<lparr>world := w2, calls := c @ [?e]\<rparr>)"
      using inv2 by (simp only:)
    with s' have "calls s' = calls s @ [?e] \<and>
           find_link_type sp l ?s =
             Inr (rc, s'\<lparr>cnt := int (length ?out) - 1, to_atom := Some ?t, world := w2,
                       calls := c @ [?e]\<rparr>)"
      by simp
    then show ?thesis by blast
  qed
qed

lemma chase_answers:
  assumes p1: "\<forall>cb. user_callback s = Some cb \<longrightarrow> (\<forall>p t w w'. fst (cb p t w) = fst (cb p t w'))"
    and p2: "\<forall>cb. user_callback_lh s = Some cb \<longrightarrow>
               (\<forall>p t l w w'. fst (cb p t l w) = fst (cb p t l w'))"
    and run: "foreach_link (find_link_type sp) ls s = Inr (rc, s')"
  shows "\<exists>k' ta' w' new. calls s' = calls s @ new \<and>
           foreach_link (find_link_type sp) ls (s\<lparr>cnt := k, to_atom := ta, world := w, calls := c\<rparr>) =
             Inr (rc, s'\<lparr>cnt := k', to_atom := ta', world := w', calls := c @ new\<rparr>)"
  using p1 p2 run
proof (induction ls arbitrary: s k ta w c)
  case Nil
  then have "calls s' = calls s @ [] \<and>
           foreach_link (find_link_type sp) [] (s\<lparr>cnt := k, to_atom := ta, world := w, calls := c\<rparr>) =
             Inr (rc, s'\<lparr>cnt := k, to_atom := ta, world := w, calls := c @ []\<rparr>)"
    by auto
  then show ?case by blast
next
  case (Cons l ls)
  from Cons.prems(3) show ?case
  proof (cases rule: foreach_link_Cons_cases)
    case halt
    from find_link_type_answers [OF Cons.prems(1,2) halt(1), where k = k and ta = ta and w = w and c = c]
    obtain k1 ta1 w1 new1 where "calls s' = calls s @ new1"
      "find_link_type sp l (s\<lparr>cnt := k, to_atom := ta, world := w, calls := c\<rparr>) =
             Inr (True, s'\<lparr>cnt := k1, to_atom := ta1, world := w1, calls := c @ new1\<rparr>)"
      by blast
    with halt(2) have "calls s' = calls s @ new1 \<and>
           foreach_link (find_link_type sp) (l # ls) (s\<lparr>cnt := k, to_atom := ta, world := w, calls := c\<rparr>) =
             Inr (rc, s'\<lparr>cnt := k1, to_atom := ta1, world := w1, calls := c @ new1\<rparr>)"
      by simp
    then show ?thesis by blast
  next
    case (continue s1)
    from find_link_type_answers [OF Cons.prems(1,2) continue(1), where k = k and ta = ta and w = w and c = c]
    obtain k1 ta1 w1 new1 where new1: "calls s1 = calls s @ new1"
      "find_link_type sp l (s\<lparr>cnt := k, to_atom := ta, world := w, calls := c\<rparr>) =
             Inr (False, s1\<lparr>cnt := k1, to_atom := ta1, world := w1, calls := c @ new1\<rparr>)"
      by blast
    from find_link_type_params(5,6) [OF continue(1)] Cons.prems(1,2)
    have "\<forall>cb. user_callback s1 = Some cb \<longrightarrow> (\<forall>p t w w'. fst (cb p t w) = fst (cb p t w'))"
      "\<forall>cb. user_callback_lh s1 = Some cb \<longrightarrow> (\<forall>p t l w w'. fst (cb p t l w) = fst (cb p t l w'))"
      by simp_all
    from Cons.IH [OF this continue(2), where k = k1 and ta = ta1 and w = w1 and c = "c @ new1"]
    obtain k2 ta2 w2 new2 where new2: "calls s' = calls s1 @ new2"
      "foreach_link (find_link_type sp) ls (s1\<lparr>cnt := k1, to_atom := ta1, world := w1, calls := c @ new1\<rparr>) =
             Inr (rc, s'\<lparr>cnt := k2, to_atom := ta2, world := w2, calls := (c @ new1) @ new2\<rparr>)"
      by blast
    from new1 new2 have "calls s' = calls s @ (new1 @ new2) \<and>
           foreach_link (find_link_type sp) (l # ls) (s\<lparr>cnt := k, to_atom := ta, world := w, calls := c\<rparr>) =
             Inr (rc, s'\<lparr>cnt := k2, to_atom := ta2, world := w2, calls := c @ (new1 @ new2)\<rparr>)"
      by simp
    then show ?thesis by blast
  qed
qed

lemma entry_any:
  fixes s1 s2 :: "('p, 'w) run"
  shows "s2\<lparr>link_type := ltype, from_atom := fa, to_atom := None,
               position_from := pfrom, position_to := pto,
               user_callback := ucb, user_callback_lh := ucb_lh, user_data := data\<rparr> =
         (s1\<lparr>link_type := ltype, from_atom := fa, to_atom := None,
               position_from := pfrom, position_to := pto,
               user_callback := ucb, user_callback_lh := ucb_lh, user_data := data\<rparr>)
           \<lparr>cnt := cnt s2, to_atom := None, world := world s2, calls := calls s2\<rparr>"
  by (cases s1, cases s2) simp

lemma chase_answers_independent:
  fixes s1 s2 :: "('p, 'w) run"
  assumes p1: "\<forall>cb. ucb = Some cb \<longrightarrow> (\<forall>p t w w'. fst (cb p t w) = fst (cb p t w'))"
    and p2: "\<forall>cb. ucb_lh = Some cb \<longrightarrow> (\<forall>p t l w w'. fst (cb p t l w) = fst (cb p t l w'))"
    and some: "ucb \<noteq> None \<or> ucb_lh \<noteq> None"
  shows "\<exists>rc r1 r2 new.
     foreach_link (find_link_type sp) ls
       (s1\<lparr>link_type := ltype, from_atom := fa, to_atom := None,
               position_from := pfrom, position_to := pto,
               user_callback := ucb, user_callback_lh := ucb_lh, user_data := data\<rparr>) = Inr (rc, r1) \<and>
     foreach_link (find_link_type sp) ls
       (s2\<lparr>link_type := ltype, from_atom := fa, to_atom := None,
               position_from := pfrom, position_to := pto,
               user_callback := ucb, user_callback_lh := ucb_lh, user_data := data\<rparr>) = Inr (rc, r2) \<and>
     calls r1 = calls s1 @ new \<and> calls r2 = calls s2 @ new"
proof -
  let ?i1 = "s1\<lparr>link_type := ltype, from_atom := fa, to_atom := None,
               position_from := pfrom, position_to := pto,
               user_callback := ucb, user_callback_lh := ucb_lh, user_data := data\<rparr>"
  let ?i2 = "s2\<lparr>link_type := ltype, from_atom := fa, to_atom := None,
               position_from := pfrom, position_to := pto,
               user_callback := ucb, user_callback_lh := ucb_lh, user_data := data\<rparr>"
  have i2: "?i2 = ?i1\<lparr>cnt := cnt s2, to_atom := None, world := world s2, calls := calls s2\<rparr>"
    by (rule entry_any)
  from some have "user_callback ?i1 \<noteq> None \<or> user_callback_lh ?i1 \<noteq> None" by simp
  from chase_total [OF this, of sp ls] obtain rc r1 where
    run1: "foreach_link (find_link_type sp) ls ?i1 = Inr (rc, r1)" by blast
  from p1 p2 have
    "\<forall>cb. user_callback ?i1 = Some cb \<longrightarrow> (\<forall>p t w w'. fst (cb p t w) = fst (cb p t w'))"
    "\<forall>cb. user_callback_lh ?i1 = Some cb \<longrightarrow> (\<forall>p t l w w'. fst (cb p t l w) = fst (cb p t l w'))"
    by simp_all
  from chase_answers [OF this run1, where k = "cnt s2" and ta = None and w = "world s2"
      and c = "calls s2"]
  obtain k' ta' w' new where new: "calls r1 = calls ?i1 @ new"
    "foreach_link (find_link_type sp) ls ?i2 =
       Inr (rc, r1\<lparr>cnt := k', to_atom := ta', world := w', calls := calls s2 @ new\<rparr>)"
    unfolding i2 [symmetric] by blast
  let ?r2 = "r1\<lparr>cnt := k', to_atom := ta', world := w', calls := calls s2 @ new\<rparr>"
  from run1 new have "foreach_link (find_link_type sp) ls ?i1 = Inr (rc, r1) \<and>
     foreach_link (find_link_type sp) ls ?i2 = Inr (rc, ?r2) \<and>
     calls r1 = calls s1 @ new \<and> calls ?r2 = calls s2 @ new"
    by simp
  then show ?thesis by blast
qed

text \<open>
  C10. Two runs of \<^verbatim>\<open>follow_link\<close> (or of \<^verbatim>\<open>follow_link_lh\<close>) with the same
  arguments on the same store return without a fault, return the same boolean and make
  the same sequence of visitor invocations, whatever values the fields of the chaser
  (\<^verbatim>\<open>link_type\<close>, \<^verbatim>\<open>from_atom\<close>, \<^verbatim>\<open>to_atom\<close>, the positions, the callbacks,
  \<^verbatim>\<open>user_data\<close>, \<^verbatim>\<open>cnt\<close>) hold at the start of each run: for a visitor whose
  boolean depends on its arguments only, from any two outside states and histories; and
  for any visitor, from the same outside state, where the runs also leave the same outside
  state.
\<close>

theorem C10_fields_do_not_leak:
  fixes s1 s2 :: "('p, 'w) run"
  shows
  "((\<forall>p t w w'. fst (cb p t w) = fst (cb p t w')) \<longrightarrow>
      (\<exists>rc r1 r2 new.
         follow_link sp h ltype pfrom pto cb data s1 = Inr (rc, r1) \<and>
         follow_link sp h ltype pfrom pto cb data s2 = Inr (rc, r2) \<and>
         calls r1 = calls s1 @ new \<and> calls r2 = calls s2 @ new)) \<and>
   ((\<forall>p t l w w'. fst (cb_lh p t l w) = fst (cb_lh p t l w')) \<longrightarrow>
      (\<exists>rc r1 r2 new.
         follow_link_lh sp h ltype pfrom pto cb_lh data s1 = Inr (rc, r1) \<and>
         follow_link_lh sp h ltype pfrom pto cb_lh data s2 = Inr (rc, r2) \<and>
         calls r1 = calls s1 @ new \<and> calls r2 = calls s2 @ new)) \<and>
   (world s1 = world s2 \<and> calls s1 = calls s2 \<longrightarrow>
      (\<exists>rc r1 r2.
         follow_link sp h ltype pfrom pto cb data s1 = Inr (rc, r1) \<and>
         follow_link sp h ltype pfrom pto cb data s2 = Inr (rc, r2) \<and>
         world r1 = world r2 \<and> calls r1 = calls r2) \<and>
      (\<exists>rc r1 r2.
         follow_link_lh sp h ltype pfrom pto cb_lh data s1 = Inr (rc, r1) \<and>
         follow_link_lh sp h ltype pfrom pto cb_lh data s2 = Inr (rc, r2) \<and>
         world r1 = world r2 \<and> calls r1 = calls r2))"
proof (intro conjI impI)
  assume pure: "\<forall>p t w w'. fst (cb p t w) = fst (cb p t w')"
  show "\<exists>rc r1 r2 new.
         follow_link sp h ltype pfrom pto cb data s1 = Inr (rc, r1) \<and>
         follow_link sp h ltype pfrom pto cb data s2 = Inr (rc, r2) \<and>
         calls r1 = calls s1 @ new \<and> calls r2 = calls s2 @ new"
  proof (cases "getAtom sp h")
    case None
    then have "follow_link sp h ltype pfrom pto cb data s1 = Inr (False, s1) \<and>
         follow_link sp h ltype pfrom pto cb data s2 = Inr (False, s2) \<and>
         calls s1 = calls s1 @ [] \<and> calls s2 = calls s2 @ []"
      by (simp add: follow_link_unfold)
    then show ?thesis by blast
  next
    case (Some atom)
    from pure have "\<forall>c. Some cb = Some c \<longrightarrow> (\<forall>p t w w'. fst (c p t w) = fst (c p t w'))"
      by simp
    from chase_answers_independent [OF this, where ucb_lh = None and ?s1.0 = s1 and ?s2.0 = s2
        and sp = sp and ls = "incoming sp h" and ltype = ltype and fa = "Some atom"
        and pfrom = pfrom and pto = pto and data = data] Some
    show ?thesis by (simp add: follow_link_unfold)
  qed
next
  assume pure: "\<forall>p t l w w'. fst (cb_lh p t l w) = fst (cb_lh p t l w')"
  show "\<exists>rc r1 r2 new.
         follow_link_lh sp h ltype pfrom pto cb_lh data s1 = Inr (rc, r1) \<and>
         follow_link_lh sp h ltype pfrom pto cb_lh data s2 = Inr (rc, r2) \<and>
         calls r1 = calls s1 @ new \<and> calls r2 = calls s2 @ new"
  proof (cases "getAtom sp h")
    case None
    then have "follow_link_lh sp h ltype pfrom pto cb_lh data s1 = Inr (False, s1) \<and>
         follow_link_lh sp h ltype pfrom pto cb_lh data s2 = Inr (False, s2) \<and>
         calls s1 = calls s1 @ [] \<and> calls s2 = calls s2 @ []"
      by (simp add: follow_link_lh_unfold)
    then show ?thesis by blast
  next
    case (Some atom)
    from pure have "\<forall>c. Some cb_lh = Some c \<longrightarrow> (\<forall>p t l w w'. fst (c p t l w) = fst (c p t l w'))"
      by simp
    from chase_answers_independent [where ucb = None and ucb_lh = "Some cb_lh", OF _ this,
        where ?s1.0 = s1 and ?s2.0 = s2
        and sp = sp and ls = "incoming sp h" and ltype = ltype and fa = "Some atom"
        and pfrom = pfrom and pto = pto and data = data] Some
    show ?thesis by (simp add: follow_link_lh_unfold)
  qed
next
  assume "world s1 = world s2 \<and> calls s1 = calls s2"
  then have same: "world s1 = world s2" "calls s1 = calls s2" by simp_all
  from follow_link_same_outside [OF same, THEN conjunct1]
  show "\<exists>rc r1 r2.
         follow_link sp h ltype pfrom pto cb data s1 = Inr (rc, r1) \<and>
         follow_link sp h ltype pfrom pto cb data s2 = Inr (rc, r2) \<and>
         world r1 = world r2 \<and> calls r1 = calls r2" .
next
  assume "world s1 = world s2 \<and> calls s1 = calls s2"
  then have same: "world s1 = world s2" "calls s1 = calls s2" by simp_all
  from follow_link_same_outside [OF same, THEN conjunct2]
  show "\<exists>rc r1 r2.
         follow_link_lh sp h ltype pfrom pto cb_lh data s1 = Inr (rc, r1) \<and>
         follow_link_lh sp h ltype pfrom pto cb_lh data s2 = Inr (rc, r2) \<and>
         world r1 = world r2 \<and> calls r1 = calls r2" .
qed

theorem C10_fields_do_not_leak_witness:
  "(\<forall>p t w w'. fst (stop_at_c p t w) = fst (stop_at_c p t w')) \<and>
   (\<exists>rc r1 r2 new.
      follow_link scenario (Handle 1) INHERITANCE_LINK 0 1 stop_at_c () idle = Inr (rc, r1) \<and>
      follow_link scenario (Handle 1) INHERITANCE_LINK 0 1 stop_at_c () busy = Inr (rc, r2) \<and>
      calls r1 = calls idle @ new \<and> calls r2 = calls busy @ new) \<and>
   (\<forall>p t l w w'. fst (stop_at_c_lh p t l w) = fst (stop_at_c_lh p t l w')) \<and>
   (\<exists>rc r1 r2 new.
      follow_link_lh scenario (Handle 1) INHERITANCE_LINK 0 1 stop_at_c_lh () idle = Inr (rc, r1) \<and>
      follow_link_lh scenario (Handle 1) INHERITANCE_LINK 0 1 stop_at_c_lh () busy = Inr (rc, r2) \<and>
      calls r1 = calls idle @ new \<and> calls r2 = calls busy @ new) \<and>
   world idle = world (busy\<lparr>world := [], calls := []\<rparr>) \<and>
   calls idle = calls (busy\<lparr>world := [], calls := []\<rparr>) \<and>
   (\<exists>rc r1 r2.
      follow_link scenario (Handle 1) INHERITANCE_LINK 0 1 collect () idle = Inr (rc, r1) \<and>
      follow_link scenario (Handle 1) INHERITANCE_LINK 0 1 collect ()
        (busy\<lparr>world := [], calls := []\<rparr>) = Inr (rc, r2) \<and>
      world r1 = world r2 \<and> calls r1 = calls r2) \<and>
   (\<exists>rc r1 r2.
      follow_link_lh scenario (Handle 1) INHERITANCE_LINK 0 1 collect_lh () idle = Inr (rc, r1) \<and>
      follow_link_lh scenario (Handle 1) INHERITANCE_LINK 0 1 collect_lh ()
        (busy\<lparr>world := [], calls := []\<rparr>) = Inr (rc, r2) \<and>
      world r1 = world r2 \<and> calls r1 = calls r2)"
proof -
  have pure: "\<forall>p t w w'. fst (stop_at_c p t w) = fst (stop_at_c p t w')"
    by (simp add: stop_at_c_def)
  have pure_lh: "\<forall>p t l w w'. fst (stop_at_c_lh p t l w) = fst (stop_at_c_lh p t l w')"
    by (simp add: stop_at_c_lh_def)
  have same: "world idle = world (busy\<lparr>world := [], calls := []\<rparr>) \<and>
      calls idle = calls (busy\<lparr>world := [], calls := []\<rparr>)"
    by (simp add: idle_def)
  note a = C10_fields_do_not_leak [where cb = stop_at_c and ?s1.0 = idle and ?s2.0 = busy
      and sp = scenario and h = "Handle 1" and ltype = INHERITANCE_LINK and pfrom = 0 and pto = 1
      and data = "()", THEN conjunct1, THEN mp, OF pure]
  note b = C10_fields_do_not_leak [where cb_lh = stop_at_c_lh and ?s1.0 = idle and ?s2.0 = busy
      and sp = scenario and h = "Handle 1" and ltype = INHERITANCE_LINK and pfrom = 0 and pto = 1
      and data = "()", THEN conjunct2, THEN conjunct1, THEN mp, OF pure_lh]
  note c = C10_fields_do_not_leak [where cb = collect and cb_lh = collect_lh and ?s1.0 = idle
      and ?s2.0 = "busy\<lparr>world := [], calls := []\<rparr>"
      and sp = scenario and h = "Handle 1" and ltype = INHERITANCE_LINK and pfrom = 0 and pto = 1
      and data = "()", THEN conjunct2, THEN conjunct2, THEN mp, OF same]
  from pure a pure_lh b same c show ?thesis by (intro conjI) simp_all
qed

end
